theory Spec2Isabelle
  imports Complex_Main
begin

section \<open>CalcTopoIndex: the topographic index of the fine grid\<close>

text \<open>
  A shallow embedding of \<^verbatim>\<open>CalcTopoIndex\<close> (src/CalcTopoIndex.c).

  Conventions of the embedding.
  \<^item> The C type \<^verbatim>\<open>float\<close> is the type \<open>real\<close>: all arithmetic is exact. Rounding,
    overflow, infinities and NaN are outside the model; in particular \<open>x / 0 = 0\<close> in HOL
    where IEEE arithmetic gives an infinity or a NaN, so every theorem whose truth depends
    on the value of a quotient assumes divisors that are not zero: \<open>1 \<le> DMASS\<close>, which
    makes the truncated cell size \<^verbatim>\<open>dx\<close> and the diagonal positive.
  \<^item> The C type \<^verbatim>\<open>int\<close> is the type \<open>int\<close>; the product \<^verbatim>\<open>dx * dy\<close> is assumed to stay
    in range, that is \<^verbatim>\<open>DMASS\<close> below 46341.
  \<^item> Two behaviours of the machine arithmetic are therefore not in the model: a float
    slope can round to zero although the neighbor is strictly lower, which leaves
    \<^verbatim>\<open>tanbeta\<close> at zero and makes the routing loop add 0/0; and the product \<^verbatim>\<open>dx * dy\<close>
    overflows for large cells. The theorems of this theory are about the order of the
    passes, about comparisons of elevations, about errors and about values that the
    floats represent exactly, or they are stated of exact arithmetic; nothing is proved
    here about the sign of \<^verbatim>\<open>tanbeta\<close> or of the areas in the machine arithmetic.
  \<^item> A cell is the pair \<open>(x, y)\<close> of an \<^verbatim>\<open>ITEM\<close>. The grids \<^verbatim>\<open>a\<close>, \<^verbatim>\<open>tanbeta\<close>,
    \<^verbatim>\<open>contour_length\<close> and \<^verbatim>\<open>FineMap\<close> are stores from cells to values: \<^verbatim>\<open>g[y][x]\<close> is
    \<open>g (x, y)\<close>. The stores are total; the C arrays have \<^verbatim>\<open>NYfine\<close> rows of \<^verbatim>\<open>NXfine\<close>
    entries and an access outside them is undefined in C.
  \<^item> The array \<^verbatim>\<open>OrderedCellsfine\<close> together with its length \<^verbatim>\<open>NumCellsfine\<close> is a list.
  \<^item> \<^verbatim>\<open>ReportError\<close> ends the run: an error is the value \<open>Inl\<close> of the result.
\<close>

subsection \<open>Data\<close>

type_synonym cell = "int \<times> int"

text \<open>The fields of \<^verbatim>\<open>FINEPIX\<close> that the function reads or writes. The header data.h
  is not among the sources; the types of the fields are read off their use: \<^verbatim>\<open>Dem\<close> is
  assigned to a \<^verbatim>\<open>float\<close>, \<^verbatim>\<open>Mask\<close> is used as a truth value, \<^verbatim>\<open>TopoIndex\<close> receives
  the result of \<^verbatim>\<open>log\<close>.\<close>

record FINEPIX =
  Dem :: real
  Mask :: bool
  TopoIndex :: real

text \<open>The fields of \<^verbatim>\<open>MAPSIZE\<close> that the function reads (the origin and the coarse
  grid are read by the disabled diagnostic output only). \<^verbatim>\<open>DMASS\<close> is a floating-point
  number: it is printed with \<^verbatim>\<open>%.0f\<close> and assigned to the \<^verbatim>\<open>int\<close> variables \<^verbatim>\<open>dx\<close> and
  \<^verbatim>\<open>dy\<close>.\<close>

record MAPSIZE =
  NXfine :: int
  NYfine :: int
  DMASS :: real
  OrderedCellsfine :: "cell list"

text \<open>The compile-time constants of the headers \<^verbatim>\<open>settings.h\<close> and \<^verbatim>\<open>constants.h\<close>,
  which are parameters of the model.\<close>

record constants =
  NDIRSfine :: nat
  OUTSIDEBASIN :: real

definition VERTRES :: real where
  "VERTRES = 1"

text \<open>The three local grids. The grid \<^verbatim>\<open>a\<close> of the source is the field \<open>a_area\<close>
  (a constant named \<open>a\<close> would capture the variable of that name).\<close>

record accum =
  a_area :: "cell \<Rightarrow> real"
  tanbeta :: "cell \<Rightarrow> real"
  contour_length :: "cell \<Rightarrow> real"

text \<open>The local arrays of one iteration of the sweep and the counter \<^verbatim>\<open>lower\<close>.\<close>

record locals =
  neighbor_elev :: "real list"
  temp_slope :: "real list"
  delta_a :: "real list"
  lower :: nat

text \<open>Modelled from the spec: \<^verbatim>\<open>ReportError\<close> is declared in DHSVMerror.h and its body is
  not part of the sources at hand; the specification says that a fatal condition is
  "reported and aborting the run". The error value records the two arguments of the
  call.\<close>

datatype error = ReportError string nat

definition NumCellsfine :: "MAPSIZE \<Rightarrow> nat" where
  "NumCellsfine M = length (OrderedCellsfine M)"

text \<open>\<^verbatim>\<open>calloc\<close> fills the grids with zeros.\<close>

definition calloc_grids :: accum where
  "calloc_grids = \<lparr>a_area = (\<lambda>c. 0), tanbeta = (\<lambda>c. 0), contour_length = (\<lambda>c. 0)\<rparr>"

subsection \<open>Geometry\<close>

text \<open>The conversion of a \<^verbatim>\<open>float\<close> to an \<^verbatim>\<open>int\<close> in \<^verbatim>\<open>dx = Map->DMASS\<close> truncates
  towards zero.\<close>

definition float_to_int :: "real \<Rightarrow> int" where
  "float_to_int r = (if 0 \<le> r then \<lfloor>r\<rfloor> else \<lceil>r\<rceil>)"

definition dx :: "MAPSIZE \<Rightarrow> int" where
  "dx M = float_to_int (DMASS M)"

definition dy :: "MAPSIZE \<Rightarrow> int" where
  "dy M = float_to_int (DMASS M)"

definition length_diagonal :: "MAPSIZE \<Rightarrow> real" where
  "length_diagonal M = sqrt ((real_of_int (dx M))\<^sup>2 + (real_of_int (dy M))\<^sup>2)"

text \<open>The offset tables. With a neighbor count other than 4 or 8 the initializer of the
  source is empty, which leaves the array filled with zeros.\<close>

definition xneighbor :: "constants \<Rightarrow> int list" where
  "xneighbor K =
     (if NDIRSfine K = 4 then [0, 1, 0, -1]
      else if NDIRSfine K = 8 then [-1, 0, 1, 1, 1, 0, -1, -1]
      else replicate (NDIRSfine K) 0)"

definition yneighbor :: "constants \<Rightarrow> int list" where
  "yneighbor K =
     (if NDIRSfine K = 4 then [-1, 0, 1, 0]
      else if NDIRSfine K = 8 then [1, 1, 1, 0, -1, -1, -1, 0]
      else replicate (NDIRSfine K) 0)"

text \<open>Modelled from the spec: \<^verbatim>\<open>valid_cell_fine\<close> is declared in slopeaspect.h and its
  body is not part of the sources at hand; the specification says that it tells whether
  "the neighbor lies outside the grid", the grid having \<^verbatim>\<open>NXfine\<close> columns and
  \<^verbatim>\<open>NYfine\<close> rows.\<close>

definition valid_cell_fine :: "MAPSIZE \<Rightarrow> int \<Rightarrow> int \<Rightarrow> bool" where
  "valid_cell_fine M x y \<longleftrightarrow> 0 \<le> x \<and> x < NXfine M \<and> 0 \<le> y \<and> y < NYfine M"

subsection \<open>One cell of the sweep\<close>

text \<open>The loop that fills \<^verbatim>\<open>neighbor_elev\<close>.\<close>

definition fill_neighbors :: "constants \<Rightarrow> MAPSIZE \<Rightarrow> (cell \<Rightarrow> FINEPIX) \<Rightarrow> cell \<Rightarrow> real list" where
  "fill_neighbors K M FineMap c =
     map (\<lambda>n. let xn = fst c + xneighbor K ! n;
                 yn = snd c + yneighbor K ! n
             in if valid_cell_fine M xn yn
                then (if Mask (FineMap (xn, yn)) then Dem (FineMap (xn, yn)) else OUTSIDEBASIN K)
                else OUTSIDEBASIN K)
         [0 ..< NDIRSfine K]"

text \<open>The body of the first loop of \<^verbatim>\<open>case 8\<close>: the sentinel is replaced by the cell's own
  elevation, then a strictly lower neighbor adds to \<^verbatim>\<open>contour_length\<close> and \<^verbatim>\<open>tanbeta\<close> of
  the cell and records its \<^verbatim>\<open>delta_a\<close>; any other neighbor is counted in \<^verbatim>\<open>lower\<close>.\<close>

definition slope_iter ::
  "constants \<Rightarrow> MAPSIZE \<Rightarrow> cell \<Rightarrow> real \<Rightarrow> nat \<Rightarrow> locals \<times> accum \<Rightarrow> locals \<times> accum" where
  "slope_iter K M c celev n = (\<lambda>(L, S).
     let L1 = (if neighbor_elev L ! n = OUTSIDEBASIN K
               then L\<lparr>neighbor_elev := (neighbor_elev L)[n := celev]\<rparr> else L)
     in if neighbor_elev L1 ! n < celev
        then (if n = 0 \<or> n = 2 \<or> n = 4 \<or> n = 6
              then let sl = (celev - neighbor_elev L1 ! n) / length_diagonal M
                   in (L1\<lparr>temp_slope := (temp_slope L1)[n := sl],
                          delta_a := (delta_a L1)[n := a_area S c * sl * (0.4 * DMASS M)]\<rparr>,
                       S\<lparr>contour_length := (contour_length S)(c := contour_length S c + 0.4 * DMASS M),
                         tanbeta := (tanbeta S)(c := tanbeta S c + sl * (0.4 * DMASS M))\<rparr>)
              else let sl = (celev - neighbor_elev L1 ! n) / DMASS M
                   in (L1\<lparr>temp_slope := (temp_slope L1)[n := sl],
                          delta_a := (delta_a L1)[n := a_area S c * sl * (0.6 * DMASS M)]\<rparr>,
                       S\<lparr>contour_length := (contour_length S)(c := contour_length S c + 0.6 * DMASS M),
                         tanbeta := (tanbeta S)(c := tanbeta S c + sl * (0.6 * DMASS M))\<rparr>))
        else (L1\<lparr>lower := lower L1 + 1\<rparr>, S))"

text \<open>The quotients of \<open>slope_iter\<close> are exact; in the code they are rounded to
  \<^verbatim>\<open>float\<close> and the quotient of a very small difference is zero.\<close>

text \<open>The arrays \<^verbatim>\<open>temp_slope\<close> and \<^verbatim>\<open>delta_a\<close> are not initialised in the source; the
  model starts them at zero. An entry is read only where the same iteration or the routing
  loop, under the same test, has written it before.\<close>

definition slope_loop ::
  "constants \<Rightarrow> MAPSIZE \<Rightarrow> cell \<Rightarrow> real \<Rightarrow> real list \<Rightarrow> accum \<Rightarrow> locals \<times> accum" where
  "slope_loop K M c celev ne S =
     fold (slope_iter K M c celev) [0 ..< NDIRSfine K]
       (\<lparr>neighbor_elev = ne, temp_slope = replicate (NDIRSfine K) 0,
         delta_a = replicate (NDIRSfine K) 0, lower = 0\<rparr>, S)"

text \<open>The value of the flat-area branch; \<^verbatim>\<open>NDIRSfine/2\<close> is an integer division.\<close>

definition flat_tanbeta :: "constants \<Rightarrow> MAPSIZE \<Rightarrow> real" where
  "flat_tanbeta K M =
     real (NDIRSfine K div 2) * ((0.5 * VERTRES) / length_diagonal M)
     + real (NDIRSfine K div 2) * ((0.5 * VERTRES) / DMASS M)"

text \<open>The \<^verbatim>\<open>switch (n)\<close> of the routing loop: the cell that receives the share of neighbor
  \<open>n\<close>; \<open>None\<close> is the \<^verbatim>\<open>default\<close> branch.\<close>

definition route_target :: "nat \<Rightarrow> cell \<Rightarrow> cell option" where
  "route_target n c =
     (let x = fst c; y = snd c
      in if n = 0 then Some (x - 1, y + 1)
         else if n = 1 then Some (x, y + 1)
         else if n = 2 then Some (x + 1, y + 1)
         else if n = 3 then Some (x + 1, y)
         else if n = 4 then Some (x + 1, y - 1)
         else if n = 5 then Some (x, y - 1)
         else if n = 6 then Some (x - 1, y - 1)
         else if n = 7 then Some (x - 1, y)
         else None)"

definition route_iter :: "cell \<Rightarrow> real \<Rightarrow> locals \<Rightarrow> nat \<Rightarrow> accum \<Rightarrow> error + accum" where
  "route_iter c celev L n S =
     (if neighbor_elev L ! n < celev
      then (case route_target n c of
              Some t \<Rightarrow> Inr (S\<lparr>a_area := (a_area S)(t := a_area S t + delta_a L ! n / tanbeta S c)\<rparr>)
            | None \<Rightarrow> Inl (ReportError ''CalcTopoIndex'' 1))
      else Inr S)"

text \<open>A loop whose body may end the run.\<close>

fun foldE :: "('x \<Rightarrow> 's \<Rightarrow> error + 's) \<Rightarrow> 'x list \<Rightarrow> 's \<Rightarrow> error + 's" where
  "foldE f [] S = Inr S"
| "foldE f (x # xs) S = (case f x S of Inl e \<Rightarrow> Inl e | Inr S' \<Rightarrow> foldE f xs S')"

text \<open>The body of the sweep for one cell: the \<^verbatim>\<open>switch (NDIRSfine)\<close> with its three
  branches; \<^verbatim>\<open>case 4\<close> and \<^verbatim>\<open>default\<close> both report the error.\<close>

definition sweep_cell ::
  "constants \<Rightarrow> MAPSIZE \<Rightarrow> (cell \<Rightarrow> FINEPIX) \<Rightarrow> cell \<Rightarrow> accum \<Rightarrow> error + accum" where
  "sweep_cell K M FineMap c S =
     (let ne = fill_neighbors K M FineMap c;
          celev = Dem (FineMap c)
      in if NDIRSfine K = 8
         then (let (L, S1) = slope_loop K M c celev ne S;
                   S2 = (if lower L = 8
                         then S1\<lparr>tanbeta := (tanbeta S1)(c := flat_tanbeta K M)\<rparr>
                         else S1)
               in foldE (route_iter c celev L) [0 ..< NDIRSfine K] S2)
         else Inl (ReportError ''CalcTopoIndex'' 1))"

subsection \<open>The three passes\<close>

text \<open>Each pass is \<^verbatim>\<open>for (k = NumCellsfine - 1; k > -1; k--)\<close>. The natural number of
  the recursion is \<open>k + 1\<close>: at \<open>Suc k\<close> the body runs for index \<open>k\<close>, at \<open>0\<close> the loop
  ends.\<close>

text \<open>In \<open>init_loop\<close> the product \<^verbatim>\<open>dx * dy\<close> is the product of the integers; the \<^verbatim>\<open>int\<close>
  product of the code is this number as long as it is below \<open>2 ^ 31\<close>.\<close>

fun init_loop :: "MAPSIZE \<Rightarrow> nat \<Rightarrow> accum \<Rightarrow> accum" where
  "init_loop M 0 S = S"
| "init_loop M (Suc k) S =
     init_loop M k
       (S\<lparr>a_area := (a_area S)(OrderedCellsfine M ! k := real_of_int (dx M * dy M))\<rparr>)"

fun sweep_loop ::
  "constants \<Rightarrow> MAPSIZE \<Rightarrow> (cell \<Rightarrow> FINEPIX) \<Rightarrow> nat \<Rightarrow> accum \<Rightarrow> error + accum" where
  "sweep_loop K M FineMap 0 S = Inr S"
| "sweep_loop K M FineMap (Suc k) S =
     (case sweep_cell K M FineMap (OrderedCellsfine M ! k) S of
        Inl e \<Rightarrow> Inl e
      | Inr S' \<Rightarrow> sweep_loop K M FineMap k S')"

fun final_loop :: "MAPSIZE \<Rightarrow> accum \<Rightarrow> nat \<Rightarrow> (cell \<Rightarrow> FINEPIX) \<Rightarrow> (cell \<Rightarrow> FINEPIX)" where
  "final_loop M S 0 FineMap = FineMap"
| "final_loop M S (Suc k) FineMap =
     (let c = OrderedCellsfine M ! k
      in final_loop M S k
           (FineMap(c := (FineMap c)\<lparr>TopoIndex := ln (a_area S c / tanbeta S c)\<rparr>)))"

text \<open>The grids as they are when the sweep has ended: allocation, initialisation of the
  area, sweep.\<close>

definition accumulate :: "constants \<Rightarrow> MAPSIZE \<Rightarrow> (cell \<Rightarrow> FINEPIX) \<Rightarrow> error + accum" where
  "accumulate K M FineMap =
     sweep_loop K M FineMap (NumCellsfine M) (init_loop M (NumCellsfine M) calloc_grids)"

text \<open>The rest of the function after the sweep: the finalisation pass writes the index,
  the diagnostic output is disabled (\<^verbatim>\<open>printmap = 0\<close>), the grids are freed.\<close>

definition finish :: "MAPSIZE \<Rightarrow> accum \<Rightarrow> (cell \<Rightarrow> FINEPIX) \<Rightarrow> error + (cell \<Rightarrow> FINEPIX)" where
  "finish M S FineMap = Inr (final_loop M S (NumCellsfine M) FineMap)"

text \<open>The function. \<open>calloc_ok\<close> tells whether every allocation succeeds; the result is
  the \<^verbatim>\<open>FineMap\<close> that the caller sees afterwards.\<close>

definition CalcTopoIndex ::
  "constants \<Rightarrow> bool \<Rightarrow> MAPSIZE \<Rightarrow> (cell \<Rightarrow> FINEPIX) \<Rightarrow> error + (cell \<Rightarrow> FINEPIX)" where
  "CalcTopoIndex K calloc_ok M FineMap =
     (if \<not> calloc_ok then Inl (ReportError ''CalcTopoIndex'' 1)
      else case accumulate K M FineMap of
             Inl e \<Rightarrow> Inl e
           | Inr S \<Rightarrow> finish M S FineMap)"

subsection \<open>What one cell of the sweep computes\<close>

text \<open>The quantities of one iteration of the sweep, named so that its two loops can be
  described in closed form. They are proved equal to what the loops compute in
  \<open>sweep_cell_closed\<close> and \<open>slope_loop_result\<close>.\<close>

text \<open>The elevation of a neighbor after the sentinel has been replaced.\<close>

definition flatten :: "constants \<Rightarrow> real \<Rightarrow> real \<Rightarrow> real" where
  "flatten K celev e = (if e = OUTSIDEBASIN K then celev else e)"

definition nelev :: "constants \<Rightarrow> MAPSIZE \<Rightarrow> (cell \<Rightarrow> FINEPIX) \<Rightarrow> cell \<Rightarrow> nat \<Rightarrow> real" where
  "nelev K M FineMap c n = flatten K (Dem (FineMap c)) (fill_neighbors K M FineMap c ! n)"

text \<open>The numbers of the strictly lower neighbors of a cell, in the order of the loops.\<close>

definition lower_nbrs :: "constants \<Rightarrow> MAPSIZE \<Rightarrow> (cell \<Rightarrow> FINEPIX) \<Rightarrow> cell \<Rightarrow> nat list" where
  "lower_nbrs K M FineMap c = filter (\<lambda>n. nelev K M FineMap c n < Dem (FineMap c)) [0 ..< 8]"

text \<open>The diagonal neighbors, the contour part and the slope of neighbor \<open>n\<close>, and their
  product, the term that neighbor \<open>n\<close> adds to \<^verbatim>\<open>tanbeta\<close>.\<close>

definition is_diag :: "nat \<Rightarrow> bool" where
  "is_diag n \<longleftrightarrow> n = 0 \<or> n = 2 \<or> n = 4 \<or> n = 6"

definition contour_part :: "MAPSIZE \<Rightarrow> nat \<Rightarrow> real" where
  "contour_part M n = (if is_diag n then 0.4 * DMASS M else 0.6 * DMASS M)"

definition slope_part :: "MAPSIZE \<Rightarrow> real \<Rightarrow> real \<Rightarrow> nat \<Rightarrow> real" where
  "slope_part M celev e n =
     (if is_diag n then (celev - e) / length_diagonal M else (celev - e) / DMASS M)"

definition weight :: "constants \<Rightarrow> MAPSIZE \<Rightarrow> (cell \<Rightarrow> FINEPIX) \<Rightarrow> cell \<Rightarrow> nat \<Rightarrow> real" where
  "weight K M FineMap c n =
     slope_part M (Dem (FineMap c)) (nelev K M FineMap c n) n * contour_part M n"

text \<open>The \<^verbatim>\<open>tanbeta\<close> of the cell after its first loop and the flat-area branch, and the
  amount \<^verbatim>\<open>delta_a[n] / tanbeta[y][x]\<close> that the routing loop adds to neighbor \<open>n\<close>.\<close>

definition new_tanbeta :: "constants \<Rightarrow> MAPSIZE \<Rightarrow> (cell \<Rightarrow> FINEPIX) \<Rightarrow> cell \<Rightarrow> accum \<Rightarrow> real" where
  "new_tanbeta K M FineMap c S =
     (if lower_nbrs K M FineMap c = [] then flat_tanbeta K M
      else tanbeta S c + (\<Sum>n \<leftarrow> lower_nbrs K M FineMap c. weight K M FineMap c n))"

definition routed :: "constants \<Rightarrow> MAPSIZE \<Rightarrow> (cell \<Rightarrow> FINEPIX) \<Rightarrow> cell \<Rightarrow> accum \<Rightarrow> nat \<Rightarrow> real" where
  "routed K M FineMap c S n =
     a_area S c * slope_part M (Dem (FineMap c)) (nelev K M FineMap c n) n * contour_part M n
       / new_tanbeta K M FineMap c S"

text \<open>The grids after the step of one cell with eight neighbors.\<close>

definition cell_step :: "constants \<Rightarrow> MAPSIZE \<Rightarrow> (cell \<Rightarrow> FINEPIX) \<Rightarrow> cell \<Rightarrow> accum \<Rightarrow> accum" where
  "cell_step K M FineMap c S =
     \<lparr>a_area = (\<lambda>t. a_area S t +
             (\<Sum>n \<leftarrow> filter (\<lambda>n. route_target n c = Some t) (lower_nbrs K M FineMap c).
                 routed K M FineMap c S n)),
      tanbeta = (tanbeta S)(c := new_tanbeta K M FineMap c S),
      contour_length = (contour_length S)(c := contour_length S c +
             (\<Sum>n \<leftarrow> lower_nbrs K M FineMap c. contour_part M n))\<rparr>"

text \<open>The area of one cell, and the grids when the sweep begins.\<close>

definition cell_area :: "MAPSIZE \<Rightarrow> real" where
  "cell_area M = real_of_int (dx M * dy M)"

definition init_state :: "MAPSIZE \<Rightarrow> accum" where
  "init_state M = init_loop M (NumCellsfine M) calloc_grids"

subsection \<open>Concrete inputs\<close>

text \<open>The settings: eight neighbors, or four, with the sentinel 0.\<close>

definition K0 :: constants where
  "K0 = \<lparr>NDIRSfine = 8, OUTSIDEBASIN = 0\<rparr>"

definition K4 :: constants where
  "K4 = \<lparr>NDIRSfine = 4, OUTSIDEBASIN = 0\<rparr>"

text \<open>A grid of one row and two columns with cells of size 10, in a given order of
  processing; the left cell (0, 0) at elevation 20 and the right cell (1, 0) at
  elevation 10. The records of cells off the grid are never read.\<close>

definition row2_map :: "cell list \<Rightarrow> MAPSIZE" where
  "row2_map order = \<lparr>NXfine = 2, NYfine = 1, DMASS = 10, OrderedCellsfine = order\<rparr>"

definition row2_fine :: "cell \<Rightarrow> FINEPIX" where
  "row2_fine c = \<lparr>Dem = (if c = (0, 0) then 20 else 10), Mask = True, TopoIndex = 0\<rparr>"

text \<open>On the same grid: a right cell that lies at the sentinel elevation 0, below the left
  cell at 10; and a right cell at elevation 5 that is outside the basin mask, beside the
  left cell at 20.\<close>

definition sentinel_fine :: "cell \<Rightarrow> FINEPIX" where
  "sentinel_fine c = \<lparr>Dem = (if c = (0, 0) then 10 else 0), Mask = True, TopoIndex = 0\<rparr>"

definition hole_fine :: "cell \<Rightarrow> FINEPIX" where
  "hole_fine c = \<lparr>Dem = (if c = (0, 0) then 20 else 5), Mask = (c \<noteq> (1, 0)), TopoIndex = 7\<rparr>"

text \<open>A flat basin of three rows and three columns at elevation 10, with cells of size 10.\<close>

definition flat3_map :: "cell list \<Rightarrow> MAPSIZE" where
  "flat3_map order = \<lparr>NXfine = 3, NYfine = 3, DMASS = 10, OrderedCellsfine = order\<rparr>"

definition flat3_fine :: "cell \<Rightarrow> FINEPIX" where
  "flat3_fine c = \<lparr>Dem = 10, Mask = True, TopoIndex = 0\<rparr>"

definition flat3_cells :: "cell list" where
  "flat3_cells = [(0, 0), (1, 0), (2, 0), (0, 1), (1, 1), (2, 1), (0, 2), (1, 2), (2, 2)]"

text \<open>A row of three cells of size 10 at the elevations 30, 20 and 10.\<close>

definition stairs3_map :: "cell list \<Rightarrow> MAPSIZE" where
  "stairs3_map order = \<lparr>NXfine = 3, NYfine = 1, DMASS = 10, OrderedCellsfine = order\<rparr>"

definition stairs3_fine :: "cell \<Rightarrow> FINEPIX" where
  "stairs3_fine c =
     \<lparr>Dem = (if c = (0, 0) then 30 else if c = (1, 0) then 20 else 10), Mask = True, TopoIndex = 0\<rparr>"

text \<open>Grids in which \<^verbatim>\<open>tanbeta\<close> is zero everywhere and every area is 100.\<close>

definition zero_slope_grids :: accum where
  "zero_slope_grids = \<lparr>a_area = (\<lambda>c. 100), tanbeta = (\<lambda>c. 0), contour_length = (\<lambda>c. 0)\<rparr>"

section \<open>Properties of the model\<close>

subsection \<open>The loops of one cell in closed form\<close>

lemma slope_iter_unfold:
  "slope_iter K M c celev n (L, S) =
     (let e = flatten K celev (neighbor_elev L ! n);
          L1 = (if neighbor_elev L ! n = OUTSIDEBASIN K
               then L\<lparr>neighbor_elev := (neighbor_elev L)[n := celev]\<rparr> else L)
      in if e < celev \<and> n < length (neighbor_elev L)
         then (L1\<lparr>temp_slope := (temp_slope L1)[n := slope_part M celev e n],
                  delta_a := (delta_a L1)[n := a_area S c * slope_part M celev e n * contour_part M n]\<rparr>,
               S\<lparr>contour_length := (contour_length S)(c := contour_length S c + contour_part M n),
                 tanbeta := (tanbeta S)(c := tanbeta S c + slope_part M celev e n * contour_part M n)\<rparr>)
         else if n < length (neighbor_elev L) then (L1\<lparr>lower := lower L1 + 1\<rparr>, S)
         else slope_iter K M c celev n (L, S))"
  by (auto simp: slope_iter_def flatten_def slope_part_def contour_part_def is_diag_def Let_def)

lemma slope_fold_inv:
  assumes "n \<le> length (neighbor_elev L0)" "length (delta_a L0) = length (neighbor_elev L0)"
  shows "case fold (slope_iter K M c celev) [0 ..< n] (L0, S0) of (L, S) \<Rightarrow>
     length (neighbor_elev L) = length (neighbor_elev L0) \<and>
     length (delta_a L) = length (neighbor_elev L0) \<and>
     (\<forall>i < length (neighbor_elev L0).
        neighbor_elev L ! i = (if i < n then flatten K celev (neighbor_elev L0 ! i) else neighbor_elev L0 ! i)) \<and>
     (\<forall>i < n. flatten K celev (neighbor_elev L0 ! i) < celev \<longrightarrow>
        delta_a L ! i = a_area S0 c * slope_part M celev (flatten K celev (neighbor_elev L0 ! i)) i * contour_part M i) \<and>
     lower L = lower L0 + length (filter (\<lambda>i. \<not> flatten K celev (neighbor_elev L0 ! i) < celev) [0 ..< n]) \<and>
     a_area S = a_area S0 \<and>
     tanbeta S = (tanbeta S0)(c := tanbeta S0 c +
        (\<Sum>i \<leftarrow> filter (\<lambda>i. flatten K celev (neighbor_elev L0 ! i) < celev) [0 ..< n].
            slope_part M celev (flatten K celev (neighbor_elev L0 ! i)) i * contour_part M i)) \<and>
     contour_length S = (contour_length S0)(c := contour_length S0 c +
        (\<Sum>i \<leftarrow> filter (\<lambda>i. flatten K celev (neighbor_elev L0 ! i) < celev) [0 ..< n]. contour_part M i))"
  using assms
proof (induction n)
  case 0
  then show ?case by simp
next
  case (Suc n)
  obtain L S where LS: "fold (slope_iter K M c celev) [0 ..< n] (L0, S0) = (L, S)"
    by (cases "fold (slope_iter K M c celev) [0 ..< n] (L0, S0)")
  from Suc have nlt: "n < length (neighbor_elev L0)" by simp
  from nlt have nle: "n \<le> length (neighbor_elev L0)" by simp
  note IH0 = Suc.IH[OF nle Suc.prems(2), unfolded LS prod.case]
  from IH0 have IH: "length (neighbor_elev L) = length (neighbor_elev L0)"
     "length (delta_a L) = length (neighbor_elev L0)"
     "\<And>i. i < length (neighbor_elev L0) \<Longrightarrow>
        neighbor_elev L ! i = (if i < n then flatten K celev (neighbor_elev L0 ! i) else neighbor_elev L0 ! i)"
     "\<And>i. i < n \<Longrightarrow> flatten K celev (neighbor_elev L0 ! i) < celev \<Longrightarrow>
        delta_a L ! i = a_area S0 c * slope_part M celev (flatten K celev (neighbor_elev L0 ! i)) i * contour_part M i"
     "lower L = lower L0 + length (filter (\<lambda>i. \<not> flatten K celev (neighbor_elev L0 ! i) < celev) [0 ..< n])"
     "a_area S = a_area S0"
     "tanbeta S = (tanbeta S0)(c := tanbeta S0 c +
        (\<Sum>i \<leftarrow> filter (\<lambda>i. flatten K celev (neighbor_elev L0 ! i) < celev) [0 ..< n].
            slope_part M celev (flatten K celev (neighbor_elev L0 ! i)) i * contour_part M i))"
     "contour_length S = (contour_length S0)(c := contour_length S0 c +
        (\<Sum>i \<leftarrow> filter (\<lambda>i. flatten K celev (neighbor_elev L0 ! i) < celev) [0 ..< n]. contour_part M i))"
    by blast+
  have nth_n: "neighbor_elev L ! n = neighbor_elev L0 ! n"
    using IH(3)[OF nlt] by simp
  have step: "fold (slope_iter K M c celev) [0 ..< Suc n] (L0, S0) = slope_iter K M c celev n (L, S)"
    by (simp add: LS)
  show ?case
    unfolding step
    apply (subst slope_iter_unfold)
    using nlt IH(1,2,5,6,7,8)
    apply (simp add: Let_def nth_n nth_list_update less_Suc_eq IH(3) IH(4) flatten_def[of K celev celev])
    apply (auto simp: flatten_def nth_list_update IH(3) IH(4) less_Suc_eq)
    done
qed


lemma foldE_snoc:
  "foldE f (xs @ [x]) S = (case foldE f xs S of Inl e \<Rightarrow> Inl e | Inr S' \<Rightarrow> f x S')"
  by (induction xs arbitrary: S) (auto split: sum.splits)

lemma route_target_Some: "n < 8 \<Longrightarrow> \<exists>t. route_target n c = Some t"
  by (simp add: route_target_def Let_def)

lemma route_fold_inv:
  assumes "n \<le> 8"
  shows "foldE (route_iter c celev L) [0 ..< n] S2 =
     Inr (S2\<lparr>a_area := (\<lambda>t. a_area S2 t +
        (\<Sum>i \<leftarrow> filter (\<lambda>i. neighbor_elev L ! i < celev \<and> route_target i c = Some t) [0 ..< n].
            delta_a L ! i / tanbeta S2 c))\<rparr>)"
  using assms
proof (induction n)
  case 0
  then show ?case by simp
next
  case (Suc n)
  then have IH: "foldE (route_iter c celev L) [0 ..< n] S2 =
     Inr (S2\<lparr>a_area := (\<lambda>t. a_area S2 t +
        (\<Sum>i \<leftarrow> filter (\<lambda>i. neighbor_elev L ! i < celev \<and> route_target i c = Some t) [0 ..< n].
            delta_a L ! i / tanbeta S2 c))\<rparr>)" by simp
  from Suc.prems obtain t where t: "route_target n c = Some t"
    using route_target_Some[of n c] by auto
  have "foldE (route_iter c celev L) [0 ..< Suc n] S2 =
      (case foldE (route_iter c celev L) [0 ..< n] S2 of Inl e \<Rightarrow> Inl e
       | Inr S' \<Rightarrow> route_iter c celev L n S')"
    by (simp add: foldE_snoc)
  then show ?case
    apply (simp only: IH sum.case)
    apply (simp add: route_iter_def t fun_eq_iff)
    done
qed

lemma filter_compl_length: "length (filter (\<lambda>x. \<not> P x) xs) = length xs \<longleftrightarrow> filter P xs = []"
  using sum_length_filter_compl[of P xs] by (auto simp: filter_empty_conv)

lemma sum_list_filter_cong:
  "(\<And>x. x \<in> set xs \<Longrightarrow> P x = Q x) \<Longrightarrow> (\<And>x. x \<in> set xs \<Longrightarrow> Q x \<Longrightarrow> f x = g x) \<Longrightarrow>
     sum_list (map f (filter P xs)) = (sum_list (map g (filter Q xs)) :: real)"
  by (induction xs) auto

lemma length_fill_neighbors: "length (fill_neighbors K M FineMap c) = NDIRSfine K"
  by (simp add: fill_neighbors_def)

lemma sweep_cell_closed:
  assumes "NDIRSfine K = 8"
  shows "sweep_cell K M FineMap c S =
     Inr \<lparr>a_area = (\<lambda>t. a_area S t +
             (\<Sum>n \<leftarrow> filter (\<lambda>n. route_target n c = Some t) (lower_nbrs K M FineMap c).
                 routed K M FineMap c S n)),
          tanbeta = (tanbeta S)(c := new_tanbeta K M FineMap c S),
          contour_length = (contour_length S)(c := contour_length S c +
             (\<Sum>n \<leftarrow> lower_nbrs K M FineMap c. contour_part M n))\<rparr>"
proof -
  let ?ne = "fill_neighbors K M FineMap c"
  let ?celev = "Dem (FineMap c)"
  let ?L0 = "\<lparr>neighbor_elev = ?ne, temp_slope = replicate (NDIRSfine K) 0,
         delta_a = replicate (NDIRSfine K) 0, lower = 0\<rparr>"
  obtain L S1 where LS: "slope_loop K M c ?celev ?ne S = (L, S1)"
    by (cases "slope_loop K M c ?celev ?ne S")
  have len: "length (neighbor_elev ?L0) = 8" "length (delta_a ?L0) = length (neighbor_elev ?L0)"
    by (simp_all add: length_fill_neighbors assms)
  have f: "fold (slope_iter K M c ?celev) [0 ..< 8] (?L0, S) = (L, S1)"
    using LS by (simp add: slope_loop_def assms)
  have le8: "8 \<le> length (neighbor_elev ?L0)" using len by simp
  note inv0 = slope_fold_inv[where K=K and M=M and c=c and celev="?celev" and ?S0.0=S, OF le8 len(2), unfolded f prod.case]
  from inv0 have inv:
     "\<And>i. i < 8 \<Longrightarrow> neighbor_elev L ! i = nelev K M FineMap c i"
     "\<And>i. i < 8 \<Longrightarrow> nelev K M FineMap c i < ?celev \<Longrightarrow>
        delta_a L ! i = a_area S c * slope_part M ?celev (nelev K M FineMap c i) i * contour_part M i"
     "lower L = length (filter (\<lambda>i. \<not> nelev K M FineMap c i < ?celev) [0 ..< 8])"
     "a_area S1 = a_area S"
     "tanbeta S1 = (tanbeta S)(c := tanbeta S c +
        (\<Sum>i \<leftarrow> lower_nbrs K M FineMap c. weight K M FineMap c i))"
     "contour_length S1 = (contour_length S)(c := contour_length S c +
        (\<Sum>i \<leftarrow> lower_nbrs K M FineMap c. contour_part M i))"
    by (auto simp add: length_fill_neighbors assms nelev_def lower_nbrs_def weight_def simp del: fun_upd_apply)
  have low8: "lower L = 8 \<longleftrightarrow> lower_nbrs K M FineMap c = []"
    unfolding inv(3) lower_nbrs_def
    using filter_compl_length[of "\<lambda>i. nelev K M FineMap c i < ?celev" "[0 ..< 8]"] by simp
  define S2 where "S2 = (if lower L = 8
                         then S1\<lparr>tanbeta := (tanbeta S1)(c := flat_tanbeta K M)\<rparr>
                         else S1)"
  have S2: "a_area S2 = a_area S" "contour_length S2 = contour_length S1"
    "tanbeta S2 = (tanbeta S)(c := new_tanbeta K M FineMap c S)"
    by (auto simp: S2_def inv(4,5,6) low8 new_tanbeta_def)
  have sc: "sweep_cell K M FineMap c S = foldE (route_iter c ?celev L) [0 ..< 8] S2"
    by (simp add: sweep_cell_def Let_def assms LS S2_def)
  have sums: "\<And>t. (\<Sum>i \<leftarrow> filter (\<lambda>i. neighbor_elev L ! i < ?celev \<and> route_target i c = Some t) [0 ..< 8].
            delta_a L ! i / new_tanbeta K M FineMap c S) =
         (\<Sum>n \<leftarrow> filter (\<lambda>n. route_target n c = Some t) (lower_nbrs K M FineMap c).
                 routed K M FineMap c S n)"
    unfolding lower_nbrs_def filter_filter
    by (rule sum_list_filter_cong) (auto simp: inv(1) inv(2) routed_def S2)
  show ?thesis
    unfolding sc
    apply (subst route_fold_inv)
     apply simp
    apply (simp add: S2)
    apply (rule accum.equality)
       apply (simp_all add: sums S2 inv(6))
    done
qed

lemma sweep_cell_step: "NDIRSfine K = 8 \<Longrightarrow> sweep_cell K M FineMap c S = Inr (cell_step K M FineMap c S)"
  by (simp add: sweep_cell_closed cell_step_def)

subsection \<open>The three passes as folds over the cells\<close>

lemma sweep_loop_foldE:
  "k \<le> length (OrderedCellsfine M) \<Longrightarrow>
     sweep_loop K M FineMap k S = foldE (sweep_cell K M FineMap) (rev (take k (OrderedCellsfine M))) S"
proof (induction k arbitrary: S)
  case 0
  then show ?case by simp
next
  case (Suc k)
  then have "take (Suc k) (OrderedCellsfine M) = take k (OrderedCellsfine M) @ [OrderedCellsfine M ! k]"
    by (simp add: take_Suc_conv_app_nth)
  with Suc show ?case by (simp split: sum.splits)
qed

lemma foldE_sweep_cell:
  "NDIRSfine K = 8 \<Longrightarrow> foldE (sweep_cell K M FineMap) cs S = Inr (fold (cell_step K M FineMap) cs S)"
  by (induction cs arbitrary: S) (simp_all add: sweep_cell_step)

lemma init_loop_eq:
  "k \<le> length (OrderedCellsfine M) \<Longrightarrow>
     init_loop M k S = S\<lparr>a_area := (\<lambda>c. if c \<in> set (take k (OrderedCellsfine M)) then cell_area M else a_area S c)\<rparr>"
proof (induction k arbitrary: S)
  case 0
  then show ?case by simp
next
  case (Suc k)
  then have "take (Suc k) (OrderedCellsfine M) = take k (OrderedCellsfine M) @ [OrderedCellsfine M ! k]"
    by (simp add: take_Suc_conv_app_nth)
  with Suc show ?case by (auto simp: cell_area_def fun_eq_iff)
qed

lemma init_state_eq:
  "init_state M = \<lparr>a_area = (\<lambda>c. if c \<in> set (OrderedCellsfine M) then cell_area M else 0),
                    tanbeta = (\<lambda>c. 0), contour_length = (\<lambda>c. 0)\<rparr>"
  by (simp add: init_state_def NumCellsfine_def init_loop_eq calloc_grids_def cong: if_cong)

lemma final_loop_eq:
  "k \<le> length (OrderedCellsfine M) \<Longrightarrow>
     final_loop M S k FineMap =
       (\<lambda>c. if c \<in> set (take k (OrderedCellsfine M))
            then (FineMap c)\<lparr>TopoIndex := ln (a_area S c / tanbeta S c)\<rparr> else FineMap c)"
proof (induction k arbitrary: FineMap)
  case 0
  then show ?case by simp
next
  case (Suc k)
  then have "take (Suc k) (OrderedCellsfine M) = take k (OrderedCellsfine M) @ [OrderedCellsfine M ! k]"
    by (simp add: take_Suc_conv_app_nth)
  with Suc show ?case by (auto simp: fun_eq_iff Let_def)
qed

lemma accumulate_eq:
  "NDIRSfine K = 8 \<Longrightarrow>
     accumulate K M FineMap = Inr (fold (cell_step K M FineMap) (rev (OrderedCellsfine M)) (init_state M))"
  by (simp add: accumulate_def sweep_loop_foldE NumCellsfine_def foldE_sweep_cell init_state_def)

lemma CalcTopoIndex_eq:
  "NDIRSfine K = 8 \<Longrightarrow>
     CalcTopoIndex K True M FineMap =
       Inr (\<lambda>c. if c \<in> set (OrderedCellsfine M)
            then (FineMap c)\<lparr>TopoIndex :=
                    ln (a_area (fold (cell_step K M FineMap) (rev (OrderedCellsfine M)) (init_state M)) c
                        / tanbeta (fold (cell_step K M FineMap) (rev (OrderedCellsfine M)) (init_state M)) c)\<rparr>
            else FineMap c)"
  by (simp add: CalcTopoIndex_def accumulate_eq finish_def final_loop_eq NumCellsfine_def)

subsection \<open>The neighbors that receive area\<close>

lemma lt8_cases: "n < 8 \<Longrightarrow> n = (7::nat) \<or> n = 6 \<or> n = 5 \<or> n = 4 \<or> n = 3 \<or> n = 2 \<or> n = 1 \<or> n = 0"
  by arith

lemma route_target_nbr:
  assumes "NDIRSfine K = 8" "n < 8"
  shows "route_target n c = Some (fst c + xneighbor K ! n, snd c + yneighbor K ! n)"
  using lt8_cases[OF assms(2)]
  by (elim disjE) (simp_all add: route_target_def xneighbor_def yneighbor_def assms(1))

lemma route_target_inj:
  assumes "n < 8" "m < 8" "route_target n c = route_target m c"
  shows "n = m"
  using lt8_cases[OF assms(1)] lt8_cases[OF assms(2)] assms(3)
  by (elim disjE) (simp_all add: route_target_def Let_def)

lemma lower_nbrs_lt8: "n \<in> set (lower_nbrs K M FineMap c) \<Longrightarrow> n < 8"
  by (simp add: lower_nbrs_def)

lemma lower_nbr_target:
  assumes "NDIRSfine K = 8" "n \<in> set (lower_nbrs K M FineMap c)" "route_target n c = Some t"
  shows "valid_cell_fine M (fst t) (snd t) \<and> Mask (FineMap t) \<and> Dem (FineMap t) \<noteq> OUTSIDEBASIN K
         \<and> Dem (FineMap t) < Dem (FineMap c) \<and> nelev K M FineMap c n = Dem (FineMap t)"
proof -
  from assms(2) have n8: "n < 8" and low: "nelev K M FineMap c n < Dem (FineMap c)"
    by (simp_all add: lower_nbrs_def)
  from route_target_nbr[OF assms(1) n8, of c] assms(3)
  have t: "t = (fst c + xneighbor K ! n, snd c + yneighbor K ! n)" by simp
  have fill: "fill_neighbors K M FineMap c ! n =
     (if valid_cell_fine M (fst t) (snd t)
      then (if Mask (FineMap t) then Dem (FineMap t) else OUTSIDEBASIN K)
      else OUTSIDEBASIN K)"
    using n8 by (simp add: fill_neighbors_def assms(1) t Let_def)
  from low show ?thesis
    unfolding nelev_def fill flatten_def by (auto split: if_splits)
qed

subsection \<open>The sum of the routed amounts\<close>

lemma dx_pos: "1 \<le> DMASS M \<Longrightarrow> 1 \<le> dx M"
  by (simp add: dx_def float_to_int_def le_floor_iff)

lemma length_diagonal_pos: "1 \<le> DMASS M \<Longrightarrow> 0 < length_diagonal M"
proof -
  assume "1 \<le> DMASS M"
  then have "1 \<le> dx M" by (rule dx_pos)
  then have "0 < (real_of_int (dx M))\<^sup>2" by simp
  then have "0 < (real_of_int (dx M))\<^sup>2 + (real_of_int (dy M))\<^sup>2"
    by (simp add: add_pos_nonneg)
  then show ?thesis by (simp add: length_diagonal_def)
qed

lemma contour_part_pos: "1 \<le> DMASS M \<Longrightarrow> 0 < contour_part M n"
  by (simp add: contour_part_def)

lemma weight_pos:
  assumes "1 \<le> DMASS M" "n \<in> set (lower_nbrs K M FineMap c)"
  shows "0 < weight K M FineMap c n"
proof -
  from assms(2) have low: "nelev K M FineMap c n < Dem (FineMap c)"
    by (simp add: lower_nbrs_def)
  have "0 < slope_part M (Dem (FineMap c)) (nelev K M FineMap c n) n"
    using low assms(1) length_diagonal_pos[OF assms(1)] by (simp add: slope_part_def)
  then show ?thesis
    unfolding weight_def using contour_part_pos[OF assms(1)] by simp
qed

lemma sum_list_pos_real:
  "xs \<noteq> [] \<Longrightarrow> (\<And>x. x \<in> set xs \<Longrightarrow> 0 < f x) \<Longrightarrow> 0 < (sum_list (map f xs) :: real)"
proof (induction xs)
  case Nil
  then show ?case by simp
next
  case (Cons x xs)
  show ?case
  proof (cases "xs = []")
    case True
    with Cons.prems show ?thesis by simp
  next
    case False
    with Cons have "0 < sum_list (map f xs)" by simp
    moreover have "0 < f x" using Cons.prems by simp
    ultimately show ?thesis by simp
  qed
qed

lemma weights_pos:
  "1 \<le> DMASS M \<Longrightarrow> lower_nbrs K M FineMap c \<noteq> [] \<Longrightarrow>
     0 < (\<Sum>n \<leftarrow> lower_nbrs K M FineMap c. weight K M FineMap c n)"
  by (rule sum_list_pos_real) (simp_all add: weight_pos)

lemma routed_eq: "routed K M FineMap c S n = a_area S c * weight K M FineMap c n / new_tanbeta K M FineMap c S"
  by (simp add: routed_def weight_def mult.assoc)

lemma routed_sum:
  assumes "1 \<le> DMASS M" "lower_nbrs K M FineMap c \<noteq> []" "tanbeta S c = 0"
  shows "(\<Sum>n \<leftarrow> lower_nbrs K M FineMap c. routed K M FineMap c S n) = a_area S c"
proof -
  let ?W = "\<Sum>n \<leftarrow> lower_nbrs K M FineMap c. weight K M FineMap c n"
  have T: "new_tanbeta K M FineMap c S = ?W"
    using assms(2,3) by (simp add: new_tanbeta_def)
  have W: "0 < ?W" by (rule weights_pos[OF assms(1,2)])
  have "(\<Sum>n \<leftarrow> lower_nbrs K M FineMap c. routed K M FineMap c S n)
      = (\<Sum>n \<leftarrow> lower_nbrs K M FineMap c. (a_area S c / ?W) * weight K M FineMap c n)"
    by (simp add: routed_eq T)
  also have "\<dots> = (a_area S c / ?W) * ?W"
    by (simp only: sum_list_const_mult)
  also have "\<dots> = a_area S c" using W by simp
  finally show ?thesis .
qed

subsection \<open>The local arrays after the first loop\<close>

lemma upt8: "[0 ..< 8] = [0, 1, 2, 3, 4, 5, 6, 7]"
  by (simp add: upt_rec)

lemma slope_loop_result:
  assumes "NDIRSfine K = 8"
  shows "case slope_loop K M c (Dem (FineMap c)) (fill_neighbors K M FineMap c) S of (L, S1) \<Rightarrow>
     (\<forall>i < 8. neighbor_elev L ! i = nelev K M FineMap c i) \<and>
     (\<forall>i \<in> set (lower_nbrs K M FineMap c). delta_a L ! i =
         a_area S c * slope_part M (Dem (FineMap c)) (nelev K M FineMap c i) i * contour_part M i) \<and>
     lower L = 8 - length (lower_nbrs K M FineMap c)"
proof -
  let ?ne = "fill_neighbors K M FineMap c"
  let ?celev = "Dem (FineMap c)"
  let ?L0 = "\<lparr>neighbor_elev = ?ne, temp_slope = replicate (NDIRSfine K) 0,
         delta_a = replicate (NDIRSfine K) 0, lower = 0\<rparr>"
  obtain L S1 where LS: "slope_loop K M c ?celev ?ne S = (L, S1)"
    by (cases "slope_loop K M c ?celev ?ne S")
  have len: "length (neighbor_elev ?L0) = 8" "length (delta_a ?L0) = length (neighbor_elev ?L0)"
    by (simp_all add: length_fill_neighbors assms)
  have f: "fold (slope_iter K M c ?celev) [0 ..< 8] (?L0, S) = (L, S1)"
    using LS by (simp add: slope_loop_def assms)
  have le8: "8 \<le> length (neighbor_elev ?L0)" using len by simp
  note inv0 = slope_fold_inv[where K=K and M=M and c=c and celev="?celev" and ?S0.0=S, OF le8 len(2), unfolded f prod.case]
  have cnt: "length (filter (\<lambda>i. \<not> nelev K M FineMap c i < ?celev) [0 ..< 8]) = 8 - length (lower_nbrs K M FineMap c)"
    using sum_length_filter_compl[of "\<lambda>i. nelev K M FineMap c i < ?celev" "[0 ..< 8]"]
    by (simp add: lower_nbrs_def)
  from inv0 have
     "\<And>i. i < 8 \<Longrightarrow> neighbor_elev L ! i = nelev K M FineMap c i"
     "\<And>i. i < 8 \<Longrightarrow> nelev K M FineMap c i < ?celev \<Longrightarrow>
        delta_a L ! i = a_area S c * slope_part M ?celev (nelev K M FineMap c i) i * contour_part M i"
     "lower L = length (filter (\<lambda>i. \<not> nelev K M FineMap c i < ?celev) [0 ..< 8])"
    by (auto simp add: length_fill_neighbors assms nelev_def simp del: fun_upd_apply)
  then show ?thesis
    unfolding LS prod.case cnt by (simp add: lower_nbrs_def)
qed

subsection \<open>The row of two cells\<close>

lemma row2_fill_left:
  "NDIRSfine K = 8 \<Longrightarrow> fill_neighbors K (row2_map order) row2_fine (0, 0) =
     [OUTSIDEBASIN K, OUTSIDEBASIN K, OUTSIDEBASIN K, 10,
      OUTSIDEBASIN K, OUTSIDEBASIN K, OUTSIDEBASIN K, OUTSIDEBASIN K]"
  by (simp add: fill_neighbors_def upt8 xneighbor_def yneighbor_def valid_cell_fine_def
      row2_map_def row2_fine_def)

lemma row2_fill_right:
  "NDIRSfine K = 8 \<Longrightarrow> fill_neighbors K (row2_map order) row2_fine (1, 0) =
     [OUTSIDEBASIN K, OUTSIDEBASIN K, OUTSIDEBASIN K, OUTSIDEBASIN K,
      OUTSIDEBASIN K, OUTSIDEBASIN K, OUTSIDEBASIN K, 20]"
  by (simp add: fill_neighbors_def upt8 xneighbor_def yneighbor_def valid_cell_fine_def
      row2_map_def row2_fine_def)

lemma row2_lower_left:
  "NDIRSfine K = 8 \<Longrightarrow> OUTSIDEBASIN K \<noteq> 10 \<Longrightarrow>
     lower_nbrs K (row2_map order) row2_fine (0, 0) = [3]"
  by (simp add: lower_nbrs_def nelev_def row2_fill_left upt8 flatten_def)
     (simp add: row2_fine_def)

lemma row2_lower_right:
  "NDIRSfine K = 8 \<Longrightarrow> lower_nbrs K (row2_map order) row2_fine (1, 0) = []"
  by (simp add: lower_nbrs_def nelev_def row2_fill_right upt8 flatten_def)
     (simp add: row2_fine_def)

lemma row2_nelev3:
  "NDIRSfine K = 8 \<Longrightarrow> OUTSIDEBASIN K \<noteq> 10 \<Longrightarrow> nelev K (row2_map order) row2_fine (0, 0) 3 = 10"
  by (simp add: nelev_def row2_fill_left flatten_def)

lemma row2_dx: "dx (row2_map order) = 10" "dy (row2_map order) = 10" "DMASS (row2_map order) = 10"
  by (simp_all add: dx_def dy_def float_to_int_def row2_map_def)

lemma row2_step_left:
  assumes "NDIRSfine K = 8" "OUTSIDEBASIN K \<noteq> 10" "tanbeta S (0, 0) = 0" "contour_length S (0,0) = 0"
  shows "cell_step K (row2_map order) row2_fine (0, 0) S =
     \<lparr>a_area = (a_area S)((1, 0) := a_area S (1, 0) + a_area S (0, 0)),
      tanbeta = (tanbeta S)((0, 0) := 6),
      contour_length = (contour_length S)((0, 0) := 6)\<rparr>"
  using assms
  by (simp add: cell_step_def row2_lower_left routed_def new_tanbeta_def weight_def row2_nelev3
      slope_part_def contour_part_def is_diag_def row2_dx route_target_def fun_eq_iff)
     (simp add: row2_fine_def)

lemma row2_step_right:
  assumes "NDIRSfine K = 8"
  shows "cell_step K (row2_map order) row2_fine (1, 0) S =
     S\<lparr>tanbeta := (tanbeta S)((1, 0) := flat_tanbeta K (row2_map order))\<rparr>"
  using assms
  by (simp add: cell_step_def row2_lower_right new_tanbeta_def)

lemma row2_init:
  "init_state (row2_map [c1, c2]) =
     \<lparr>a_area = (\<lambda>c. if c = c1 \<or> c = c2 then 100 else 0), tanbeta = (\<lambda>c. 0), contour_length = (\<lambda>c. 0)\<rparr>"
  by (simp add: init_state_eq cell_area_def row2_dx fun_eq_iff) (simp add: row2_map_def)

lemma row2_accumulate:
  assumes "NDIRSfine K = 8" "OUTSIDEBASIN K \<noteq> 10"
    and "order = [(1, 0), (0, 0)] \<or> order = [(0, 0), (1, 0)]"
  shows "\<exists>S. accumulate K (row2_map order) row2_fine = Inr S \<and> tanbeta S (0, 0) = 6
             \<and> contour_length S (0, 0) = 6 \<and> a_area S (0, 0) = 100 \<and> a_area S (1, 0) = 200"
proof -
  have ord: "OrderedCellsfine (row2_map order) = order" by (simp add: row2_map_def)
  show ?thesis
    using assms(3)
  proof
    assume o: "order = [(1, 0), (0, 0)]"
    show ?thesis
      unfolding accumulate_eq[OF assms(1)] ord
      unfolding o
      by (simp add: row2_init row2_step_left[OF assms(1,2)] row2_step_right[OF assms(1)])
  next
    assume o: "order = [(0, 0), (1, 0)]"
    show ?thesis
      unfolding accumulate_eq[OF assms(1)] ord
      unfolding o
      by (simp add: row2_init row2_step_left[OF assms(1,2)] row2_step_right[OF assms(1)])
  qed
qed

subsection \<open>What a step changes\<close>

lemma cell_step_tanbeta:
  "tanbeta (cell_step K M FineMap c S) c' =
     (if c' = c then new_tanbeta K M FineMap c S else tanbeta S c')"
  by (simp add: cell_step_def)

lemma cell_step_area:
  "a_area (cell_step K M FineMap c S) t =
     a_area S t + (\<Sum>n \<leftarrow> filter (\<lambda>n. route_target n c = Some t) (lower_nbrs K M FineMap c).
                     routed K M FineMap c S n)"
  by (simp add: cell_step_def)

lemma cell_step_sink_area:
  "lower_nbrs K M FineMap c = [] \<Longrightarrow> a_area (cell_step K M FineMap c S) = a_area S"
  by (simp add: cell_step_def)

lemma sink_iff:
  "lower_nbrs K M FineMap c = [] \<longleftrightarrow> (\<forall>n < 8. \<not> nelev K M FineMap c n < Dem (FineMap c))"
  by (auto simp: lower_nbrs_def filter_empty_conv)

lemma flat_tanbeta_8:
  "NDIRSfine K = 8 \<Longrightarrow>
     flat_tanbeta K M = 4 * (0.5 * VERTRES / length_diagonal M) + 4 * (0.5 * VERTRES / DMASS M)"
  by (simp add: flat_tanbeta_def)

lemma fold_tanbeta_sink:
  assumes "lower_nbrs K M FineMap c = []" "c \<in> set cs"
  shows "tanbeta (fold (cell_step K M FineMap) cs S) c = flat_tanbeta K M"
  using assms(2)
proof (induction cs rule: rev_induct)
  case Nil
  then show ?case by simp
next
  case (snoc x xs)
  show ?case
  proof (cases "x = c")
    case True
    then show ?thesis by (simp add: cell_step_tanbeta new_tanbeta_def assms(1))
  next
    case False
    with snoc show ?thesis by (simp add: cell_step_tanbeta)
  qed
qed

lemma fold_sinks_area:
  "(\<And>c. c \<in> set cs \<Longrightarrow> lower_nbrs K M FineMap c = []) \<Longrightarrow>
     a_area (fold (cell_step K M FineMap) cs S) = a_area S"
  by (induction cs arbitrary: S) (simp_all add: cell_step_sink_area)

text \<open>The only cells whose area a step changes are strictly lower cells of the basin.\<close>

lemma cell_step_area_changed:
  assumes "NDIRSfine K = 8" "a_area (cell_step K M FineMap c S) t \<noteq> a_area S t"
  shows "valid_cell_fine M (fst t) (snd t) \<and> Mask (FineMap t)
         \<and> Dem (FineMap t) \<noteq> OUTSIDEBASIN K \<and> Dem (FineMap t) < Dem (FineMap c)"
proof -
  from assms(2) have "filter (\<lambda>n. route_target n c = Some t) (lower_nbrs K M FineMap c) \<noteq> []"
    by (auto simp: cell_step_area)
  then obtain n where "n \<in> set (lower_nbrs K M FineMap c)" "route_target n c = Some t"
    by (auto simp: filter_empty_conv)
  from lower_nbr_target[OF assms(1) this] show ?thesis by simp
qed

lemma fold_area_unchanged:
  assumes "NDIRSfine K = 8"
    and "\<not> (valid_cell_fine M (fst t) (snd t) \<and> Mask (FineMap t) \<and> Dem (FineMap t) \<noteq> OUTSIDEBASIN K)
         \<or> (\<forall>c \<in> set cs. Dem (FineMap c) \<le> Dem (FineMap t))"
  shows "a_area (fold (cell_step K M FineMap) cs S) t = a_area S t"
  using assms(2)
proof (induction cs arbitrary: S)
  case Nil
  then show ?case by simp
next
  case (Cons c cs)
  have "a_area (cell_step K M FineMap c S) t = a_area S t"
    using cell_step_area_changed[OF assms(1), of M FineMap c S t] Cons.prems by fastforce
  moreover have "a_area (fold (cell_step K M FineMap) cs (cell_step K M FineMap c S)) t
       = a_area (cell_step K M FineMap c S) t"
    using Cons.prems by (intro Cons.IH) auto
  ultimately show ?case by simp
qed

lemma foldE_Inr_cases:
  assumes "foldE (sweep_cell K M FineMap) cs S = Inr S'"
  shows "(NDIRSfine K = 8 \<and> S' = fold (cell_step K M FineMap) cs S) \<or> (cs = [] \<and> S' = S)"
proof (cases "NDIRSfine K = 8")
  case True
  with assms show ?thesis by (simp add: foldE_sweep_cell)
next
  case False
  then have "\<And>c S. sweep_cell K M FineMap c S = Inl (ReportError ''CalcTopoIndex'' 1)"
    by (simp add: sweep_cell_def)
  with assms show ?thesis by (cases cs) simp_all
qed

subsection \<open>The flat basin of nine cells\<close>

lemma sqrt200_bounds: "14.14 < sqrt 200" "sqrt 200 < 14.15"
proof -
  have "(14.14::real)\<^sup>2 < 200" by (simp add: power2_eq_square)
  then show "14.14 < sqrt 200" by (rule real_less_rsqrt)
  have "(200::real) < 14.15\<^sup>2" by (simp add: power2_eq_square)
  then show "sqrt 200 < 14.15" by (intro real_less_lsqrt) simp_all
qed

lemma flat_value_approx: "\<bar>4 * (0.5 / sqrt 200) + 4 * (0.5 / 10) - 0.3414\<bar> < (0.0001::real)"
proof -
  define q :: real where "q = 2 / sqrt 200"
  have pos: "0 < sqrt 200" by simp
  have "q < 2 / 14.14"
    unfolding q_def using sqrt200_bounds(1) by (intro divide_strict_left_mono) simp_all
  also have "(2::real) / 14.14 < 0.14145" by simp
  finally have u: "q < 0.14145" .
  have "(0.14134::real) < 2 / 14.15" by simp
  also have "2 / 14.15 < q"
    unfolding q_def using sqrt200_bounds(2) pos by (intro divide_strict_left_mono) simp_all
  finally have l: "0.14134 < q" .
  have e: "4 * (0.5 / sqrt 200) + 4 * (0.5 / 10) = q + 0.2"
    by (simp add: q_def)
  have "q + 0.2 - 0.3414 < 0.0001" "- (q + 0.2 - 0.3414) < 0.0001"
    using u l by simp_all
  then show ?thesis
    unfolding e abs_less_iff by blast
qed

lemma flat3_dx: "dx (flat3_map order) = 10" "dy (flat3_map order) = 10" "DMASS (flat3_map order) = 10"
  "OrderedCellsfine (flat3_map order) = order"
  by (simp_all add: dx_def dy_def float_to_int_def flat3_map_def)

lemma flat3_diag: "length_diagonal (flat3_map order) = sqrt 200"
  by (simp add: length_diagonal_def flat3_dx)

lemma flat3_nelev:
  assumes "NDIRSfine K = 8" "n < 8"
  shows "nelev K (flat3_map order) flat3_fine c n = 10"
  using assms
  by (simp add: nelev_def fill_neighbors_def flatten_def Let_def flat3_fine_def)

lemma flat3_sink: "NDIRSfine K = 8 \<Longrightarrow> lower_nbrs K (flat3_map order) flat3_fine c = []"
  by (simp add: sink_iff flat3_nelev) (simp add: flat3_fine_def)

lemma accumulate_sink:
  assumes "NDIRSfine K = 8" "c \<in> set (OrderedCellsfine M)"
    "\<forall>n < 8. \<not> nelev K M FineMap c n < Dem (FineMap c)"
  shows "\<exists>S. accumulate K M FineMap = Inr S \<and>
     tanbeta S c = 4 * (0.5 * VERTRES / length_diagonal M) + 4 * (0.5 * VERTRES / DMASS M)"
proof -
  from assms(3) have sink: "lower_nbrs K M FineMap c = []" by (simp add: sink_iff)
  from assms(2) have "c \<in> set (rev (OrderedCellsfine M))" by simp
  from fold_tanbeta_sink[OF sink this] show ?thesis
    by (simp add: accumulate_eq[OF assms(1)] flat_tanbeta_8[OF assms(1)])
qed

lemma flat3_accumulate:
  assumes "NDIRSfine K = 8" "set order = set flat3_cells"
  shows "\<exists>S. accumulate K (flat3_map order) flat3_fine = Inr S \<and>
     (\<forall>c \<in> set order. tanbeta S c = 4 * (0.5 / sqrt 200) + 4 * (0.5 / 10)
        \<and> \<bar>tanbeta S c - 0.3414\<bar> < 0.0001 \<and> a_area S c = 100)"
proof -
  let ?M = "flat3_map order"
  let ?S = "fold (cell_step K ?M flat3_fine) (rev order) (init_state ?M)"
  have acc: "accumulate K ?M flat3_fine = Inr ?S"
    by (simp add: accumulate_eq[OF assms(1)] flat3_dx)
  have tb: "tanbeta ?S c = 4 * (0.5 / sqrt 200) + 4 * (0.5 / 10)" if "c \<in> set order" for c
  proof -
    from that have "c \<in> set (rev order)" by simp
    from fold_tanbeta_sink[OF flat3_sink[OF assms(1)] this]
    show ?thesis
      by (simp add: flat_tanbeta_8[OF assms(1)] flat3_diag flat3_dx VERTRES_def)
  qed
  have ar: "a_area ?S c = 100" if "c \<in> set order" for c
  proof -
    have "a_area ?S = a_area (init_state ?M)"
      by (rule fold_sinks_area) (rule flat3_sink[OF assms(1)])
    with that show ?thesis
      by (simp add: init_state_eq flat3_dx cell_area_def)
  qed
  show ?thesis
    unfolding acc using tb ar flat_value_approx by simp
qed

subsection \<open>Neighbors at the sentinel elevation, off the grid or outside the mask\<close>

lemma sentinel_neighbor:
  assumes "NDIRSfine K = 8" "n < 8" "route_target n c = Some t"
    "valid_cell_fine M (fst t) (snd t)" "Mask (FineMap t)" "Dem (FineMap t) = OUTSIDEBASIN K"
  shows "fill_neighbors K M FineMap c ! n = OUTSIDEBASIN K"
    "nelev K M FineMap c n = Dem (FineMap c)"
    "n \<notin> set (lower_nbrs K M FineMap c)"
proof -
  from route_target_nbr[OF assms(1,2), of c] assms(3)
  have t: "t = (fst c + xneighbor K ! n, snd c + yneighbor K ! n)" by simp
  show f: "fill_neighbors K M FineMap c ! n = OUTSIDEBASIN K"
    using assms(2,4,5,6) by (simp add: fill_neighbors_def assms(1) t Let_def)
  show e: "nelev K M FineMap c n = Dem (FineMap c)"
    by (simp add: nelev_def f flatten_def)
  show "n \<notin> set (lower_nbrs K M FineMap c)"
    by (simp add: lower_nbrs_def e)
qed

lemma sweep_cell_sentinel_area:
  assumes "Dem (FineMap t) = OUTSIDEBASIN K" "sweep_cell K M FineMap c S = Inr S'"
  shows "a_area S' t = a_area S t"
proof (cases "NDIRSfine K = 8")
  case True
  with assms(2) have S': "S' = cell_step K M FineMap c S" by (simp add: sweep_cell_step)
  show ?thesis
    using cell_step_area_changed[OF True, of M FineMap c S t] assms(1) unfolding S' by blast
next
  case False
  with assms(2) show ?thesis by (simp add: sweep_cell_def)
qed

lemma sweep_cell_outside_area:
  assumes "\<not> (valid_cell_fine M (fst t) (snd t) \<and> Mask (FineMap t))"
    "sweep_cell K M FineMap c S = Inr S'"
  shows "a_area S' t = a_area S t"
proof (cases "NDIRSfine K = 8")
  case True
  with assms(2) have S': "S' = cell_step K M FineMap c S" by (simp add: sweep_cell_step)
  show ?thesis
    using cell_step_area_changed[OF True, of M FineMap c S t] assms(1) unfolding S' by blast
next
  case False
  with assms(2) show ?thesis by (simp add: sweep_cell_def)
qed

lemma accumulate_outside_area:
  assumes "\<not> (valid_cell_fine M (fst t) (snd t) \<and> Mask (FineMap t))"
    "t \<notin> set (OrderedCellsfine M)" "accumulate K M FineMap = Inr S"
  shows "a_area S t = 0"
proof -
  have ini: "a_area (init_state M) t = 0"
    using assms(2) by (simp add: init_state_eq)
  from assms(3) have "foldE (sweep_cell K M FineMap) (rev (OrderedCellsfine M)) (init_state M) = Inr S"
    by (simp add: accumulate_def sweep_loop_foldE NumCellsfine_def init_state_def)
  from foldE_Inr_cases[OF this] show ?thesis
  proof
    assume "NDIRSfine K = 8 \<and> S = fold (cell_step K M FineMap) (rev (OrderedCellsfine M)) (init_state M)"
    then show ?thesis
      using fold_area_unchanged[of K M t FineMap "rev (OrderedCellsfine M)" "init_state M"] assms(1) ini
      by auto
  next
    assume "rev (OrderedCellsfine M) = [] \<and> S = init_state M"
    then show ?thesis using ini by simp
  qed
qed

lemma CalcTopoIndex_frame:
  assumes "t \<notin> set (OrderedCellsfine M)" "CalcTopoIndex K ok M FineMap = Inr F'"
  shows "F' t = FineMap t"
proof -
  from assms(2) obtain S where "F' = final_loop M S (NumCellsfine M) FineMap"
    by (auto simp: CalcTopoIndex_def finish_def split: if_splits sum.splits)
  then show ?thesis
    using assms(1) by (simp add: final_loop_eq NumCellsfine_def)
qed

lemma outside_neighbor_flat:
  assumes "NDIRSfine K = 8" "n < 8" "route_target n c = Some t"
    "\<not> (valid_cell_fine M (fst t) (snd t) \<and> Mask (FineMap t))"
  shows "nelev K M FineMap c n = Dem (FineMap c)"
proof -
  from route_target_nbr[OF assms(1,2), of c] assms(3)
  have t: "t = (fst c + xneighbor K ! n, snd c + yneighbor K ! n)" by simp
  have "fill_neighbors K M FineMap c ! n = OUTSIDEBASIN K"
    using assms(2,4) by (auto simp add: fill_neighbors_def assms(1) t Let_def)
  then show ?thesis by (simp add: nelev_def flatten_def)
qed

lemma init_tanbeta: "tanbeta (init_state M) c = 0"
  by (simp add: init_state_eq)

subsection \<open>The finalisation pass and the unsupported neighbor counts\<close>

lemma finish_eq:
  "finish M S FineMap =
     Inr (\<lambda>c. if c \<in> set (OrderedCellsfine M)
               then (FineMap c)\<lparr>TopoIndex := ln (a_area S c / tanbeta S c)\<rparr> else FineMap c)"
  by (simp add: finish_def final_loop_eq NumCellsfine_def)

lemma sweep_cell_not8:
  "NDIRSfine K \<noteq> 8 \<Longrightarrow> sweep_cell K M FineMap c S = Inl (ReportError ''CalcTopoIndex'' 1)"
  by (simp add: sweep_cell_def)

lemma foldE_not8:
  "NDIRSfine K \<noteq> 8 \<Longrightarrow> cs \<noteq> [] \<Longrightarrow>
     foldE (sweep_cell K M FineMap) cs S = Inl (ReportError ''CalcTopoIndex'' 1)"
  by (cases cs) (simp_all add: sweep_cell_not8)

lemma accumulate_foldE:
  "accumulate K M FineMap = foldE (sweep_cell K M FineMap) (rev (OrderedCellsfine M)) (init_state M)"
  by (simp add: accumulate_def sweep_loop_foldE NumCellsfine_def init_state_def)

subsection \<open>The row of three cells\<close>

lemma stairs3_fill:
  "fill_neighbors K0 (stairs3_map order) stairs3_fine (0, 0) = [0, 0, 0, 20, 0, 0, 0, 0]"
  "fill_neighbors K0 (stairs3_map order) stairs3_fine (1, 0) = [0, 0, 0, 10, 0, 0, 0, 30]"
  "fill_neighbors K0 (stairs3_map order) stairs3_fine (2, 0) = [0, 0, 0, 0, 0, 0, 0, 20]"
  by (simp_all add: fill_neighbors_def K0_def upt8 xneighbor_def yneighbor_def valid_cell_fine_def
      stairs3_map_def stairs3_fine_def)

lemma stairs3_lower:
  "lower_nbrs K0 (stairs3_map order) stairs3_fine (0, 0) = [3]"
  "lower_nbrs K0 (stairs3_map order) stairs3_fine (1, 0) = [3]"
  "lower_nbrs K0 (stairs3_map order) stairs3_fine (2, 0) = []"
  by (simp_all add: lower_nbrs_def nelev_def stairs3_fill upt8 flatten_def)
     (simp_all add: stairs3_fine_def K0_def)

lemma stairs3_nelev:
  "nelev K0 (stairs3_map order) stairs3_fine (0, 0) 3 = 20"
  "nelev K0 (stairs3_map order) stairs3_fine (1, 0) 3 = 10"
  by (simp_all add: nelev_def stairs3_fill flatten_def) (simp_all add: K0_def)

lemma stairs3_dx: "dx (stairs3_map order) = 10" "dy (stairs3_map order) = 10" "DMASS (stairs3_map order) = 10"
  "OrderedCellsfine (stairs3_map order) = order"
  by (simp_all add: dx_def dy_def float_to_int_def stairs3_map_def)

lemma stairs3_step0:
  assumes "tanbeta S (0, 0) = 0"
  shows "a_area (cell_step K0 (stairs3_map order) stairs3_fine (0, 0) S) =
           (a_area S)((1, 0) := a_area S (1, 0) + a_area S (0, 0))"
    "tanbeta (cell_step K0 (stairs3_map order) stairs3_fine (0, 0) S) = (tanbeta S)((0, 0) := 6)"
  using assms
  by (simp_all add: cell_step_def stairs3_lower routed_def new_tanbeta_def weight_def stairs3_nelev
      slope_part_def contour_part_def is_diag_def stairs3_dx route_target_def fun_eq_iff)
     (simp_all add: stairs3_fine_def)

lemma stairs3_step1:
  assumes "tanbeta S (1, 0) = 0"
  shows "a_area (cell_step K0 (stairs3_map order) stairs3_fine (1, 0) S) =
           (a_area S)((2, 0) := a_area S (2, 0) + a_area S (1, 0))"
    "tanbeta (cell_step K0 (stairs3_map order) stairs3_fine (1, 0) S) = (tanbeta S)((1, 0) := 6)"
  using assms
  by (simp_all add: cell_step_def stairs3_lower routed_def new_tanbeta_def weight_def stairs3_nelev
      slope_part_def contour_part_def is_diag_def stairs3_dx route_target_def fun_eq_iff)
     (simp_all add: stairs3_fine_def)

lemma stairs3_step2:
  "a_area (cell_step K0 (stairs3_map order) stairs3_fine (2, 0) S) = a_area S"
  "tanbeta (cell_step K0 (stairs3_map order) stairs3_fine (2, 0) S) =
     (tanbeta S)((2, 0) := flat_tanbeta K0 (stairs3_map order))"
  by (simp_all add: cell_step_def stairs3_lower new_tanbeta_def)

lemma stairs3_init:
  "set order = {(0, 0), (1, 0), (2, 0)} \<Longrightarrow>
     a_area (init_state (stairs3_map order)) =
       (\<lambda>c. if c = (0, 0) \<or> c = (1, 0) \<or> c = (2, 0) then 100 else 0)"
  "tanbeta (init_state (stairs3_map order)) = (\<lambda>c. 0)"
  by (auto simp add: init_state_eq cell_area_def stairs3_dx fun_eq_iff)

lemma K0_8: "NDIRSfine K0 = 8"
  by (simp add: K0_def)

lemma stairs3_code:
  "set order = {(0, 0), (1, 0), (2, 0)} \<Longrightarrow>
   a_area (fold (cell_step K0 (stairs3_map order) stairs3_fine) [(2, 0), (1, 0), (0, 0)]
      (init_state (stairs3_map order))) (2, 0) = 200"
  by (simp add: stairs3_step0 stairs3_step1 stairs3_step2 stairs3_init)

lemma stairs3_claimed:
  "set order = {(0, 0), (1, 0), (2, 0)} \<Longrightarrow>
   a_area (fold (cell_step K0 (stairs3_map order) stairs3_fine) [(0, 0), (1, 0), (2, 0)]
      (init_state (stairs3_map order))) (2, 0) = 300"
  by (simp add: stairs3_step0 stairs3_step1 stairs3_step2 stairs3_init)

subsection \<open>Sorted orders\<close>

lemma sorted_take_le:
  assumes "sorted (map f xs)" "k < length xs" "x \<in> set (take (Suc k) xs)"
  shows "f x \<le> f (xs ! k)"
proof -
  from assms(3) obtain i where i: "i < Suc k" "i < length xs" "x = xs ! i"
    by (auto simp: in_set_conv_nth)
  then have "i \<le> k" by simp
  from sorted_nth_mono[OF assms(1) this] assms(2) i show ?thesis by simp
qed

lemma rev_split_at:
  "k < length xs \<Longrightarrow> rev xs = rev (drop (Suc k) xs) @ rev (take (Suc k) xs)"
  by (metis append_take_drop_id rev_append)

subsection \<open>The area that reaches the cells without a lower neighbor\<close>

lemma sum_list_filter_if:
  "sum_list (map r (filter P ns)) = (\<Sum>n \<leftarrow> ns. if P n then r n else (0::real))"
  by (induction ns) simp_all

lemma sum_swap_count:
  assumes "\<forall>n \<in> set ns. g n \<noteq> None"
  shows "(\<Sum>t \<leftarrow> cs. \<Sum>n \<leftarrow> filter (\<lambda>n. g n = Some t) ns. r n)
       = (\<Sum>n \<leftarrow> ns. r n * real (count_list cs (the (g n))))"
proof (induction cs)
  case Nil
  then show ?case by simp
next
  case (Cons t cs)
  have "(\<Sum>n \<leftarrow> filter (\<lambda>n. g n = Some t) ns. r n)
      = (\<Sum>n \<leftarrow> ns. if g n = Some t then r n else 0)"
    by (rule sum_list_filter_if)
  also have "\<dots> = (\<Sum>n \<leftarrow> ns. r n * (if the (g n) = t then 1 else 0))"
    using assms by (intro arg_cong[where f=sum_list] map_cong refl) auto
  finally have h: "(\<Sum>n \<leftarrow> filter (\<lambda>n. g n = Some t) ns. r n)
      = (\<Sum>n \<leftarrow> ns. r n * (if the (g n) = t then 1 else 0))" .
  have "(\<Sum>n \<leftarrow> ns. r n * real (count_list (t # cs) (the (g n))))
      = (\<Sum>n \<leftarrow> ns. r n * (if the (g n) = t then 1 else 0) + r n * real (count_list cs (the (g n))))"
    by (intro arg_cong[where f=sum_list] map_cong refl) (auto simp: algebra_simps)
  also have "\<dots> = (\<Sum>n \<leftarrow> ns. r n * (if the (g n) = t then 1 else 0))
                  + (\<Sum>n \<leftarrow> ns. r n * real (count_list cs (the (g n))))"
    by (simp add: sum_list_addf)
  finally have e: "(\<Sum>n \<leftarrow> ns. r n * real (count_list (t # cs) (the (g n))))
      = (\<Sum>n \<leftarrow> ns. r n * (if the (g n) = t then 1 else 0))
        + (\<Sum>n \<leftarrow> ns. r n * real (count_list cs (the (g n))))" .
  have "(\<Sum>t \<leftarrow> t # cs. \<Sum>n \<leftarrow> filter (\<lambda>n. g n = Some t) ns. r n)
      = (\<Sum>n \<leftarrow> filter (\<lambda>n. g n = Some t) ns. r n)
        + (\<Sum>t \<leftarrow> cs. \<Sum>n \<leftarrow> filter (\<lambda>n. g n = Some t) ns. r n)"
    by simp
  then show ?case unfolding e h Cons.IH .
qed

lemma count_list_distinct: "distinct cs \<Longrightarrow> count_list cs x = (if x \<in> set cs then 1 else 0)"
  by (induction cs) auto

lemma step_sum_area:
  assumes "distinct cs"
    and "\<forall>n \<in> set (lower_nbrs K M FineMap c). \<forall>t. route_target n c = Some t \<longrightarrow> t \<in> set cs"
  shows "(\<Sum>t \<leftarrow> cs. a_area (cell_step K M FineMap c S) t)
       = (\<Sum>t \<leftarrow> cs. a_area S t) + (\<Sum>n \<leftarrow> lower_nbrs K M FineMap c. routed K M FineMap c S n)"
proof -
  let ?ns = "lower_nbrs K M FineMap c"
  have some: "\<forall>n \<in> set ?ns. route_target n c \<noteq> None"
  proof
    fix n assume "n \<in> set ?ns"
    then have "n < 8" by (rule lower_nbrs_lt8)
    from route_target_Some[OF this, of c] show "route_target n c \<noteq> None" by auto
  qed
  have cnt: "real (count_list cs (the (route_target n c))) = 1" if "n \<in> set ?ns" for n
  proof -
    from some that obtain t where t: "route_target n c = Some t" by auto
    with assms(2) that have "t \<in> set cs" by blast
    then show ?thesis by (simp add: t count_list_distinct[OF assms(1)])
  qed
  have "(\<Sum>t \<leftarrow> cs. a_area (cell_step K M FineMap c S) t)
      = (\<Sum>t \<leftarrow> cs. a_area S t)
        + (\<Sum>t \<leftarrow> cs. \<Sum>n \<leftarrow> filter (\<lambda>n. route_target n c = Some t) ?ns. routed K M FineMap c S n)"
    by (simp add: cell_step_area sum_list_addf)
  also have "(\<Sum>t \<leftarrow> cs. \<Sum>n \<leftarrow> filter (\<lambda>n. route_target n c = Some t) ?ns. routed K M FineMap c S n)
      = (\<Sum>n \<leftarrow> ?ns. routed K M FineMap c S n * real (count_list cs (the (route_target n c))))"
    by (rule sum_swap_count[OF some])
  also have "\<dots> = (\<Sum>n \<leftarrow> ?ns. routed K M FineMap c S n)"
    by (intro arg_cong[where f=sum_list] map_cong refl) (simp add: cnt)
  finally show ?thesis .
qed

lemma conservation_fold:
  assumes K8: "NDIRSfine K = 8" and D1: "1 \<le> DMASS M"
  shows "distinct (done @ todo) \<Longrightarrow>
     sorted_wrt (\<lambda>c c'. Dem (FineMap c') \<le> Dem (FineMap c)) (done @ todo) \<Longrightarrow>
     (\<forall>c \<in> set todo. \<forall>n \<in> set (lower_nbrs K M FineMap c). \<forall>t.
         route_target n c = Some t \<longrightarrow> t \<in> set (done @ todo)) \<Longrightarrow>
     (\<forall>c \<in> set todo. tanbeta S c = 0) \<Longrightarrow>
     (\<Sum>c \<leftarrow> filter (\<lambda>c. lower_nbrs K M FineMap c = []) (done @ todo).
         a_area (fold (cell_step K M FineMap) todo S) c)
     = (\<Sum>c \<leftarrow> filter (\<lambda>c. lower_nbrs K M FineMap c = []) done. a_area S c)
       + (\<Sum>c \<leftarrow> todo. a_area S c)"
proof (induction todo arbitrary: "done" S)
  case Nil
  then show ?case by simp
next
  case (Cons c rest)
  let ?sink = "\<lambda>c. lower_nbrs K M FineMap c = []"
  let ?S1 = "cell_step K M FineMap c S"
  from Cons.prems(1) have dist: "distinct ((done @ [c]) @ rest)" by simp
  from Cons.prems(2) have srt: "sorted_wrt (\<lambda>c c'. Dem (FineMap c') \<le> Dem (FineMap c)) ((done @ [c]) @ rest)"
    by simp
  from Cons.prems(3) have clo: "\<forall>c' \<in> set rest. \<forall>n \<in> set (lower_nbrs K M FineMap c'). \<forall>t.
         route_target n c' = Some t \<longrightarrow> t \<in> set ((done @ [c]) @ rest)"
    by simp
  have tb: "\<forall>c' \<in> set rest. tanbeta ?S1 c' = 0"
    using Cons.prems(1,4) by (auto simp: cell_step_tanbeta)
  note IH = Cons.IH[OF dist srt clo tb]
  \<comment> \<open>cells not below \<open>c\<close> keep their area\<close>
  have keep: "a_area ?S1 d = a_area S d" if "Dem (FineMap c) \<le> Dem (FineMap d)" for d
    using cell_step_area_changed[OF K8, of M FineMap c S d] that by fastforce
  have done_ge: "Dem (FineMap c) \<le> Dem (FineMap d)" if "d \<in> set done" for d
    using Cons.prems(2) that by (auto simp: sorted_wrt_append)
  have keep_done: "(\<Sum>d \<leftarrow> filter ?sink done. a_area ?S1 d) = (\<Sum>d \<leftarrow> filter ?sink done. a_area S d)"
    by (intro arg_cong[where f=sum_list] map_cong refl) (simp add: keep done_ge)
  have keep_c: "a_area ?S1 c = a_area S c" by (rule keep) simp
  \<comment> \<open>the lower neighbors of \<open>c\<close> are cells still to be processed\<close>
  have tgt: "\<forall>n \<in> set (lower_nbrs K M FineMap c). \<forall>t. route_target n c = Some t \<longrightarrow> t \<in> set rest"
  proof (intro ballI allI impI)
    fix n t assume n: "n \<in> set (lower_nbrs K M FineMap c)" and t: "route_target n c = Some t"
    from lower_nbr_target[OF K8 n t] have lt: "Dem (FineMap t) < Dem (FineMap c)" by simp
    from Cons.prems(3) n t have "t \<in> set (done @ c # rest)" by (cases t) auto
    moreover have "t \<notin> set done" using done_ge[of t] lt by auto
    moreover have "t \<noteq> c" using lt by auto
    ultimately show "t \<in> set rest" by simp
  qed
  from Cons.prems(1) have drest: "distinct rest" by simp
  have rest_sum: "(\<Sum>t \<leftarrow> rest. a_area ?S1 t)
       = (\<Sum>t \<leftarrow> rest. a_area S t) + (\<Sum>n \<leftarrow> lower_nbrs K M FineMap c. routed K M FineMap c S n)"
    by (rule step_sum_area[OF drest tgt])
  have tb_c: "tanbeta S c = 0" using Cons.prems(4) by simp
  have split: "(\<Sum>d \<leftarrow> filter ?sink (done @ [c]). a_area ?S1 d) + (\<Sum>t \<leftarrow> rest. a_area ?S1 t)
      = (\<Sum>d \<leftarrow> filter ?sink done. a_area S d) + (a_area S c + (\<Sum>t \<leftarrow> rest. a_area S t))"
  proof (cases "?sink c")
    case True
    then show ?thesis
      by (simp add: keep_done keep_c rest_sum)
  next
    case False
    from routed_sum[OF D1 False tb_c]
    show ?thesis using False by (simp add: keep_done rest_sum)
  qed
  have "(\<Sum>d \<leftarrow> filter ?sink (done @ c # rest). a_area (fold (cell_step K M FineMap) (c # rest) S) d)
      = (\<Sum>d \<leftarrow> filter ?sink ((done @ [c]) @ rest). a_area (fold (cell_step K M FineMap) rest ?S1) d)"
    by simp
  also note IH
  also note split
  finally show ?case by simp
qed

lemma sum_list_rev_real: "sum_list (map f (rev xs)) = (sum_list (map f xs) :: real)"
  by (simp add: rev_map[symmetric] sum_list_rev del: rev_map)

lemma conservation_sweep:
  assumes "NDIRSfine K = 8" "1 \<le> DMASS M" "distinct (OrderedCellsfine M)"
    and "sorted (map (\<lambda>c. Dem (FineMap c)) (OrderedCellsfine M))"
    and "\<forall>t. valid_cell_fine M (fst t) (snd t) \<and> Mask (FineMap t) \<longrightarrow> t \<in> set (OrderedCellsfine M)"
  shows "(\<Sum>c \<leftarrow> filter (\<lambda>c. lower_nbrs K M FineMap c = []) (OrderedCellsfine M).
            a_area (fold (cell_step K M FineMap) (rev (OrderedCellsfine M)) (init_state M)) c)
         = real (length (OrderedCellsfine M)) * real_of_int (dx M * dy M)"
proof -
  let ?xs = "OrderedCellsfine M"
  let ?S = "fold (cell_step K M FineMap) (rev ?xs) (init_state M)"
  let ?sink = "\<lambda>c. lower_nbrs K M FineMap c = []"
  have d: "distinct ([] @ rev ?xs)" using assms(3) by simp
  have s: "sorted_wrt (\<lambda>c c'. Dem (FineMap c') \<le> Dem (FineMap c)) ([] @ rev ?xs)"
    using assms(4) by (simp add: sorted_wrt_rev sorted_map)
  have c: "\<forall>c \<in> set (rev ?xs). \<forall>n \<in> set (lower_nbrs K M FineMap c). \<forall>t.
         route_target n c = Some t \<longrightarrow> t \<in> set ([] @ rev ?xs)"
    using lower_nbr_target[OF assms(1)] assms(5) by fastforce
  have t: "\<forall>c \<in> set (rev ?xs). tanbeta (init_state M) c = 0"
    by (simp add: init_tanbeta)
  from conservation_fold[OF assms(1,2) d s c t]
  have "(\<Sum>c \<leftarrow> filter ?sink (rev ?xs). a_area ?S c) = (\<Sum>c \<leftarrow> rev ?xs. a_area (init_state M) c)"
    by simp
  moreover have "(\<Sum>c \<leftarrow> filter ?sink (rev ?xs). a_area ?S c) = (\<Sum>c \<leftarrow> filter ?sink ?xs. a_area ?S c)"
    unfolding rev_filter[symmetric] by (rule sum_list_rev_real)
  moreover have "(\<Sum>c \<leftarrow> rev ?xs. a_area (init_state M) c) = (\<Sum>c \<leftarrow> ?xs. a_area (init_state M) c)"
    by (rule sum_list_rev_real)
  moreover have "(\<Sum>c \<leftarrow> ?xs. a_area (init_state M) c) = (\<Sum>c \<leftarrow> ?xs. cell_area M)"
    by (intro arg_cong[where f=sum_list] map_cong refl) (simp add: init_state_eq)
  moreover have "(\<Sum>c \<leftarrow> ?xs. cell_area M) = real (length ?xs) * real_of_int (dx M * dy M)"
    by (simp add: sum_list_triv cell_area_def)
  ultimately show ?thesis by simp
qed

lemma distinct_targets: "distinct (map (\<lambda>n. the (route_target n c)) [0 ..< 8])"
proof -
  have "inj_on (\<lambda>n. the (route_target n c)) (set [0 ..< 8])"
  proof (rule inj_onI)
    fix n m assume n: "n \<in> set [0 ..< 8]" and m: "m \<in> set [0 ..< 8]"
      and e: "the (route_target n c) = the (route_target m c)"
    from n m have n8: "n < 8" and m8: "m < 8" by simp_all
    from route_target_Some[OF n8, of c] route_target_Some[OF m8, of c] e
    have "route_target n c = route_target m c" by auto
    from route_target_inj[OF n8 m8 this] show "n = m" .
  qed
  then show ?thesis by (simp add: distinct_map)
qed

lemma step_neighbors_gain:
  "(\<Sum>n \<leftarrow> [0 ..< 8]. a_area (cell_step K M FineMap c S) (the (route_target n c))
                        - a_area S (the (route_target n c)))
     = (\<Sum>n \<leftarrow> lower_nbrs K M FineMap c. routed K M FineMap c S n)"
proof -
  let ?cs = "map (\<lambda>n. the (route_target n c)) [0 ..< 8]"
  have in_cs: "\<forall>n \<in> set (lower_nbrs K M FineMap c). \<forall>t. route_target n c = Some t \<longrightarrow> t \<in> set ?cs"
  proof (intro ballI allI impI)
    fix n t assume "n \<in> set (lower_nbrs K M FineMap c)" and t: "route_target n c = Some t"
    then have "n \<in> set [0 ..< 8]" using lower_nbrs_lt8 by fastforce
    then have "the (route_target n c) \<in> set ?cs" unfolding set_map by (rule imageI)
    with t show "t \<in> set ?cs" by simp
  qed
  have "(\<Sum>t \<leftarrow> ?cs. a_area (cell_step K M FineMap c S) t)
       = (\<Sum>t \<leftarrow> ?cs. a_area S t) + (\<Sum>n \<leftarrow> lower_nbrs K M FineMap c. routed K M FineMap c S n)"
    by (rule step_sum_area[OF distinct_targets in_cs])
  then have "(\<Sum>t \<leftarrow> ?cs. a_area (cell_step K M FineMap c S) t) - (\<Sum>t \<leftarrow> ?cs. a_area S t)
       = (\<Sum>n \<leftarrow> lower_nbrs K M FineMap c. routed K M FineMap c S n)"
    by simp
  then show ?thesis
    by (simp add: sum_list_subtractf comp_def)
qed

lemma delta_a_routed:
  assumes "NDIRSfine K = 8"
  shows "(\<Sum>n \<leftarrow> lower_nbrs K M FineMap c.
            delta_a (fst (slope_loop K M c (Dem (FineMap c)) (fill_neighbors K M FineMap c) S)) ! n
              / new_tanbeta K M FineMap c S)
       = (\<Sum>n \<leftarrow> lower_nbrs K M FineMap c. routed K M FineMap c S n)"
proof -
  obtain L S1 where LS: "slope_loop K M c (Dem (FineMap c)) (fill_neighbors K M FineMap c) S = (L, S1)"
    by (cases "slope_loop K M c (Dem (FineMap c)) (fill_neighbors K M FineMap c) S")
  from slope_loop_result[OF assms, where M=M and c=c and FineMap=FineMap and S=S]
  have "\<forall>i \<in> set (lower_nbrs K M FineMap c). delta_a L ! i =
         a_area S c * slope_part M (Dem (FineMap c)) (nelev K M FineMap c i) i * contour_part M i"
    unfolding LS by simp
  then show ?thesis
    unfolding LS fst_conv
    by (intro arg_cong[where f=sum_list] map_cong refl) (simp add: routed_def)
qed

section \<open>The claims\<close>

subsection \<open>Claim C1\<close>

text \<open>
  Claim C1, as stated, fails. Three cells in a row at elevations 30, 20, 10, listed in
  \<^verbatim>\<open>OrderedCellsfine\<close> by strictly descending elevation. The sweep starts at the last
  element of the array, the lowest cell, and ends at the first: the lowest cell ends with
  the area 200, its own 100 and the 100 of the middle cell, which had not yet received
  the area of the highest cell when it distributed. Visiting the array from its first
  element, as the claim says, would give the lowest cell the area 300.
\<close>

theorem C1_first_element_first_counterexample:
  "OrderedCellsfine (stairs3_map [(0, 0), (1, 0), (2, 0)]) = [(0, 0), (1, 0), (2, 0)]
   \<and> Dem (stairs3_fine (0, 0)) = 30 \<and> Dem (stairs3_fine (1, 0)) = 20
   \<and> Dem (stairs3_fine (2, 0)) = 10
   \<and> accumulate K0 (stairs3_map [(0, 0), (1, 0), (2, 0)]) stairs3_fine
       = foldE (sweep_cell K0 (stairs3_map [(0, 0), (1, 0), (2, 0)]) stairs3_fine)
           [(2, 0), (1, 0), (0, 0)] (init_state (stairs3_map [(0, 0), (1, 0), (2, 0)]))
   \<and> a_area (projr (accumulate K0 (stairs3_map [(0, 0), (1, 0), (2, 0)]) stairs3_fine)) (2, 0)
       = 200
   \<and> a_area (projr (foldE (sweep_cell K0 (stairs3_map [(0, 0), (1, 0), (2, 0)]) stairs3_fine)
                 (OrderedCellsfine (stairs3_map [(0, 0), (1, 0), (2, 0)]))
                 (init_state (stairs3_map [(0, 0), (1, 0), (2, 0)])))) (2, 0)
       = 300"
proof -
  let ?M = "stairs3_map [(0, 0), (1, 0), (2, 0)]"
  have s: "set [(0, 0), (1, 0), (2, 0)] = {(0, 0), (1, 0), (2::int, 0::int)}" by simp
  have d: "OrderedCellsfine ?M = [(0, 0), (1, 0), (2, 0)]"
    "Dem (stairs3_fine (0, 0)) = 30" "Dem (stairs3_fine (1, 0)) = 20" "Dem (stairs3_fine (2, 0)) = 10"
    by (simp_all add: stairs3_dx stairs3_fine_def)
  have v: "accumulate K0 ?M stairs3_fine
       = foldE (sweep_cell K0 ?M stairs3_fine) [(2, 0), (1, 0), (0, 0)] (init_state ?M)"
    unfolding accumulate_foldE stairs3_dx by simp
  have a: "a_area (projr (accumulate K0 ?M stairs3_fine)) (2, 0) = 200"
    unfolding v foldE_sweep_cell[OF K0_8] sum.sel by (rule stairs3_code[OF s])
  have b: "a_area (projr (foldE (sweep_cell K0 ?M stairs3_fine) (OrderedCellsfine ?M)
                 (init_state ?M))) (2, 0) = 300"
    unfolding stairs3_dx foldE_sweep_cell[OF K0_8] sum.sel by (rule stairs3_claimed[OF s])
  from d v a b show ?thesis by blast
qed

text \<open>
  Claim C1, amended. The sweep visits \<^verbatim>\<open>OrderedCellsfine\<close> from its last element down to
  its first. When the array is sorted by ascending elevation, so that the visit is by
  descending elevation, the area of a cell is final at the moment the cell is processed:
  every contribution from upslope has arrived before.
\<close>

theorem C1_sweep_order:
  assumes "NDIRSfine K = 8"
    and "sorted (map (\<lambda>c. Dem (FineMap c)) (OrderedCellsfine M))"
    and "k < length (OrderedCellsfine M)"
  shows "sweep_loop K M FineMap (NumCellsfine M) S0
           = foldE (sweep_cell K M FineMap) (rev (OrderedCellsfine M)) S0
       \<and> (\<exists>S1 S. foldE (sweep_cell K M FineMap) (rev (drop (Suc k) (OrderedCellsfine M)))
                    (init_state M) = Inr S1
                \<and> accumulate K M FineMap = Inr S
                \<and> a_area S (OrderedCellsfine M ! k) = a_area S1 (OrderedCellsfine M ! k))"
proof -
  let ?xs = "OrderedCellsfine M"
  let ?step = "cell_step K M FineMap"
  let ?S1 = "fold ?step (rev (drop (Suc k) ?xs)) (init_state M)"
  have vis: "sweep_loop K M FineMap (NumCellsfine M) S0 = foldE (sweep_cell K M FineMap) (rev ?xs) S0"
    by (simp add: sweep_loop_foldE NumCellsfine_def)
  have le: "\<forall>c \<in> set (rev (take (Suc k) ?xs)). Dem (FineMap c) \<le> Dem (FineMap (?xs ! k))"
    using sorted_take_le[OF assms(2,3)] by simp
  have "fold ?step (rev ?xs) (init_state M) = fold ?step (rev (take (Suc k) ?xs)) ?S1"
    by (subst rev_split_at[OF assms(3)]) simp
  moreover have "a_area (fold ?step (rev (take (Suc k) ?xs)) ?S1) (?xs ! k) = a_area ?S1 (?xs ! k)"
    by (rule fold_area_unchanged[OF assms(1)]) (use le in blast)
  ultimately have "a_area (fold ?step (rev ?xs) (init_state M)) (?xs ! k) = a_area ?S1 (?xs ! k)"
    by simp
  with vis show ?thesis
    by (simp add: accumulate_eq[OF assms(1)] foldE_sweep_cell[OF assms(1)])
qed

text \<open>The three cells listed by ascending elevation; the middle cell, index 1.\<close>

theorem C1_sweep_order_witness:
  "NDIRSfine K0 = 8
   \<and> sorted (map (\<lambda>c. Dem (stairs3_fine c)) (OrderedCellsfine (stairs3_map [(2, 0), (1, 0), (0, 0)])))
   \<and> 1 < length (OrderedCellsfine (stairs3_map [(2, 0), (1, 0), (0, 0)]))
   \<and> (\<exists>S1 S. foldE (sweep_cell K0 (stairs3_map [(2, 0), (1, 0), (0, 0)]) stairs3_fine) [(0, 0)]
                    (init_state (stairs3_map [(2, 0), (1, 0), (0, 0)])) = Inr S1
                \<and> accumulate K0 (stairs3_map [(2, 0), (1, 0), (0, 0)]) stairs3_fine = Inr S
                \<and> a_area S (1, 0) = a_area S1 (1, 0))"
proof -
  let ?M = "stairs3_map [(2, 0), (1, 0), (0, 0)]"
  have o: "OrderedCellsfine ?M = [(2, 0), (1, 0), (0, 0)]" by (simp add: stairs3_map_def)
  have h2: "sorted (map (\<lambda>c. Dem (stairs3_fine c)) (OrderedCellsfine ?M))"
    by (simp add: o stairs3_fine_def)
  have h3: "1 < length (OrderedCellsfine ?M)" by (simp add: o)
  from C1_sweep_order[OF K0_8 h2 h3] K0_8 h2 h3
  show ?thesis unfolding o by simp
qed

subsection \<open>Claim C2\<close>

text \<open>
  Claim C2. A row of two cells, the left one at elevation 20 and the right one at 10, with
  \<^verbatim>\<open>DMASS\<close> = 10 and a sentinel other than 10: the left cell has exactly one strictly
  lower neighbor, number 3, the orthogonal right cell; its slope is 1 and its contour
  part 6, so that \<^verbatim>\<open>tanbeta\<close> of the left cell is 6, \<^verbatim>\<open>delta_a[3]\<close> is 600, the routed
  amount is 100, and the right cell ends with the area 200. The array
  \<^verbatim>\<open>OrderedCellsfine\<close> = [right, left] is the one the sweep visits left cell first; the
  other array gives the same grids.
\<close>

theorem C2_single_downslope_step:
  assumes "NDIRSfine K = 8" and "OUTSIDEBASIN K \<noteq> 10"
    and "order = [(1, 0), (0, 0)] \<or> order = [(0, 0), (1, 0)]"
  shows "lower_nbrs K (row2_map order) row2_fine (0, 0) = [3]
       \<and> route_target 3 (0, 0) = Some (1, 0)
       \<and> slope_part (row2_map order) 20 (nelev K (row2_map order) row2_fine (0, 0) 3) 3 = 1
       \<and> contour_part (row2_map order) 3 = 6
       \<and> delta_a (fst (slope_loop K (row2_map order) (0, 0) 20
                     (fill_neighbors K (row2_map order) row2_fine (0, 0))
                     (init_state (row2_map order)))) ! 3 = 600
       \<and> routed K (row2_map order) row2_fine (0, 0) (init_state (row2_map order)) 3 = 100
       \<and> (\<exists>S. accumulate K (row2_map order) row2_fine = Inr S \<and> tanbeta S (0, 0) = 6
             \<and> contour_length S (0, 0) = 6 \<and> a_area S (0, 0) = 100 \<and> a_area S (1, 0) = 200)"
proof -
  let ?M = "row2_map order"
  have low: "lower_nbrs K ?M row2_fine (0, 0) = [3]"
    by (rule row2_lower_left[OF assms(1,2)])
  have tgt: "route_target 3 (0, 0) = Some (1, 0)"
    by (simp add: route_target_def)
  have ne: "nelev K ?M row2_fine (0, 0) 3 = 10"
    by (rule row2_nelev3[OF assms(1,2)])
  have sl: "slope_part ?M 20 (nelev K ?M row2_fine (0, 0) 3) 3 = 1"
    by (simp add: ne slope_part_def is_diag_def row2_dx)
  have co: "contour_part ?M 3 = 6"
    by (simp add: contour_part_def is_diag_def row2_dx)
  have ini: "a_area (init_state ?M) (0, 0) = 100" "tanbeta (init_state ?M) (0, 0) = 0"
    using assms(3) by (auto simp: row2_init)
  have celev: "Dem (row2_fine (0, 0)) = 20" by (simp add: row2_fine_def)
  have da: "delta_a (fst (slope_loop K ?M (0, 0) 20 (fill_neighbors K ?M row2_fine (0, 0))
                     (init_state ?M))) ! 3 = 600"
    using slope_loop_result[OF assms(1), where M="?M" and c="(0, 0)" and FineMap=row2_fine and S="init_state ?M"]
    by (simp add: low celev sl co ini split: prod.splits)
  have ro: "routed K ?M row2_fine (0, 0) (init_state ?M) 3 = 100"
    by (simp add: routed_def new_tanbeta_def low weight_def celev sl co ini)
  from low tgt sl co da ro row2_accumulate[OF assms] show ?thesis by blast
qed

text \<open>The scenario of C2 with the sentinel 0.\<close>

theorem C2_single_downslope_step_witness:
  "NDIRSfine K0 = 8 \<and> OUTSIDEBASIN K0 \<noteq> 10
   \<and> lower_nbrs K0 (row2_map [(1, 0), (0, 0)]) row2_fine (0, 0) = [3]
   \<and> (\<exists>S. accumulate K0 (row2_map [(1, 0), (0, 0)]) row2_fine = Inr S \<and> tanbeta S (0, 0) = 6
         \<and> a_area S (1, 0) = 200)"
proof -
  have h1: "NDIRSfine K0 = 8" by (simp add: K0_def)
  have h2: "OUTSIDEBASIN K0 \<noteq> 10" by (simp add: K0_def)
  have h3: "[(1, 0), (0, 0)] = [(1, 0), (0, 0)] \<or> [(1, 0), (0, 0)] = [(0, 0), (1::int, 0::int)]" by simp
  from C2_single_downslope_step[OF h1 h2 h3] h1 h2 show ?thesis by blast
qed

subsection \<open>Claim C3\<close>

text \<open>
  Claim C3. A processed cell none of whose eight neighbors is strictly lower, once the
  neighbors off the grid or outside the basin (and those at the sentinel elevation) have
  been given the cell's own elevation, ends with \<^verbatim>\<open>tanbeta\<close> equal to
  4 * (0.5 * VERTRES / length_diagonal) + 4 * (0.5 * VERTRES / DMASS). On the flat 3 by 3
  basin of elevation 10 with \<^verbatim>\<open>DMASS\<close> = 10, in any order of its nine cells, every cell
  ends with \<^verbatim>\<open>tanbeta\<close> = 4 * (0.5 / sqrt 200) + 4 * (0.5 / 10), which is 0.3414 to four
  places, and with the area 100.
\<close>

theorem C3_flat_area_fallback:
  "(\<forall>(K::constants) (M::MAPSIZE) (FineMap::cell \<Rightarrow> FINEPIX) c.
      NDIRSfine K = 8 \<and> c \<in> set (OrderedCellsfine M)
      \<and> (\<forall>n < 8. \<not> nelev K M FineMap c n < Dem (FineMap c))
      \<longrightarrow> (\<exists>S. accumulate K M FineMap = Inr S \<and>
             tanbeta S c = 4 * (0.5 * VERTRES / length_diagonal M) + 4 * (0.5 * VERTRES / DMASS M)))
   \<and> (\<forall>(K::constants) order.
        NDIRSfine K = 8 \<and> set order = set flat3_cells
        \<longrightarrow> (\<exists>S. accumulate K (flat3_map order) flat3_fine = Inr S \<and>
               (\<forall>c \<in> set order. tanbeta S c = 4 * (0.5 / sqrt 200) + 4 * (0.5 / 10)
                  \<and> \<bar>tanbeta S c - 0.3414\<bar> < 0.0001 \<and> a_area S c = 100)))"
  using accumulate_sink flat3_accumulate by blast

text \<open>The middle cell of the flat basin, with the sentinel 0.\<close>

theorem C3_flat_area_fallback_witness:
  "NDIRSfine K0 = 8 \<and> (1, 1) \<in> set (OrderedCellsfine (flat3_map flat3_cells))
   \<and> list_all (\<lambda>n. \<not> nelev K0 (flat3_map flat3_cells) flat3_fine (1, 1) n < Dem (flat3_fine (1, 1)))
        [0 ..< 8]
   \<and> set flat3_cells = set flat3_cells
   \<and> (\<exists>S. accumulate K0 (flat3_map flat3_cells) flat3_fine = Inr S \<and>
         tanbeta S (1, 1) = 4 * (0.5 / sqrt 200) + 4 * (0.5 / 10) \<and> a_area S (1, 1) = 100)"
proof -
  have h1: "NDIRSfine K0 = 8" by (simp add: K0_def)
  have h2: "(1, 1) \<in> set (OrderedCellsfine (flat3_map flat3_cells))"
    by (simp add: flat3_map_def flat3_cells_def)
  have h2': "(1, 1) \<in> set flat3_cells" by (simp add: flat3_cells_def)
  have h3: "\<forall>n < 8. \<not> nelev K0 (flat3_map flat3_cells) flat3_fine (1, 1) n < Dem (flat3_fine (1, 1))"
    by (simp add: flat3_nelev[OF h1]) (simp add: flat3_fine_def)
  from C3_flat_area_fallback h1 h2 h3
  have "\<exists>S. accumulate K0 (flat3_map flat3_cells) flat3_fine = Inr S \<and>
         tanbeta S (1, 1) = 4 * (0.5 * VERTRES / length_diagonal (flat3_map flat3_cells))
            + 4 * (0.5 * VERTRES / DMASS (flat3_map flat3_cells))"
    by blast
  moreover from C3_flat_area_fallback h1
  have "\<exists>S. accumulate K0 (flat3_map flat3_cells) flat3_fine = Inr S \<and>
               (\<forall>c \<in> set flat3_cells. tanbeta S c = 4 * (0.5 / sqrt 200) + 4 * (0.5 / 10)
                  \<and> \<bar>tanbeta S c - 0.3414\<bar> < 0.0001 \<and> a_area S c = 100)"
    by blast
  moreover have "list_all (\<lambda>n. \<not> nelev K0 (flat3_map flat3_cells) flat3_fine (1, 1) n
      < Dem (flat3_fine (1, 1))) [0 ..< 8]"
    using h3 by (simp add: list_all_iff)
  ultimately show ?thesis using h1 h2 h2' by auto
qed

subsection \<open>Claim C4\<close>

text \<open>
  Claim C4. With the eight-neighbor stencil and a cell size of at least 1: when a cell with
  at least one strictly lower neighbor is processed for the first time (its \<^verbatim>\<open>tanbeta\<close>
  is still the zero of the allocation), its \<^verbatim>\<open>tanbeta\<close> becomes the sum of the products
  of slope and contour part over its strictly lower neighbors, the routed amounts
  \<^verbatim>\<open>delta_a[n] / tanbeta\<close> over these neighbors sum to the area of the cell at that
  moment, and this is the total by which the areas of its eight neighbors grow. Over the
  whole sweep, when no cell is listed twice, the array is sorted by ascending elevation
  (the visit is by descending elevation) and every basin cell of the grid is listed, the
  areas that end in the cells without a strictly lower neighbor sum to the number of
  cells times \<^verbatim>\<open>dx * dy\<close>, the sum of the initial areas.
\<close>

theorem C4_area_conservation:
  assumes "NDIRSfine K = 8" and "1 \<le> DMASS M"
  shows "(tanbeta S c = 0 \<and> lower_nbrs K M FineMap c \<noteq> [] \<longrightarrow>
            (\<exists>S'. sweep_cell K M FineMap c S = Inr S'
               \<and> tanbeta S' c = (\<Sum>n \<leftarrow> lower_nbrs K M FineMap c. weight K M FineMap c n)
               \<and> (\<Sum>n \<leftarrow> lower_nbrs K M FineMap c.
                     delta_a (fst (slope_loop K M c (Dem (FineMap c))
                                     (fill_neighbors K M FineMap c) S)) ! n / tanbeta S' c)
                   = a_area S c
               \<and> (\<Sum>n \<leftarrow> [0 ..< 8]. a_area S' (the (route_target n c))
                                        - a_area S (the (route_target n c)))
                   = a_area S c))
       \<and> (distinct (OrderedCellsfine M)
          \<and> sorted (map (\<lambda>c. Dem (FineMap c)) (OrderedCellsfine M))
          \<and> (\<forall>t. valid_cell_fine M (fst t) (snd t) \<and> Mask (FineMap t) \<longrightarrow> t \<in> set (OrderedCellsfine M))
          \<longrightarrow> (\<exists>S. accumulate K M FineMap = Inr S
                 \<and> (\<Sum>c \<leftarrow> filter (\<lambda>c. lower_nbrs K M FineMap c = []) (OrderedCellsfine M). a_area S c)
                     = real (length (OrderedCellsfine M)) * real_of_int (dx M * dy M)))"
proof (intro conjI impI)
  assume h: "tanbeta S c = 0 \<and> lower_nbrs K M FineMap c \<noteq> []"
  let ?S' = "cell_step K M FineMap c S"
  have step: "sweep_cell K M FineMap c S = Inr ?S'" by (rule sweep_cell_step[OF assms(1)])
  have tb: "tanbeta ?S' c = new_tanbeta K M FineMap c S" by (simp add: cell_step_tanbeta)
  have nt: "new_tanbeta K M FineMap c S = (\<Sum>n \<leftarrow> lower_nbrs K M FineMap c. weight K M FineMap c n)"
    using h by (simp add: new_tanbeta_def)
  have rs: "(\<Sum>n \<leftarrow> lower_nbrs K M FineMap c. routed K M FineMap c S n) = a_area S c"
    using routed_sum[OF assms(2)] h by blast
  have d: "(\<Sum>n \<leftarrow> lower_nbrs K M FineMap c.
                     delta_a (fst (slope_loop K M c (Dem (FineMap c))
                                     (fill_neighbors K M FineMap c) S)) ! n / tanbeta ?S' c)
                   = a_area S c"
    unfolding tb delta_a_routed[OF assms(1)] by (rule rs)
  have g: "(\<Sum>n \<leftarrow> [0 ..< 8]. a_area ?S' (the (route_target n c)) - a_area S (the (route_target n c)))
                   = a_area S c"
    unfolding step_neighbors_gain by (rule rs)
  from step tb nt d g
  show "\<exists>S'. sweep_cell K M FineMap c S = Inr S'
               \<and> tanbeta S' c = (\<Sum>n \<leftarrow> lower_nbrs K M FineMap c. weight K M FineMap c n)
               \<and> (\<Sum>n \<leftarrow> lower_nbrs K M FineMap c.
                     delta_a (fst (slope_loop K M c (Dem (FineMap c))
                                     (fill_neighbors K M FineMap c) S)) ! n / tanbeta S' c)
                   = a_area S c
               \<and> (\<Sum>n \<leftarrow> [0 ..< 8]. a_area S' (the (route_target n c))
                                        - a_area S (the (route_target n c)))
                   = a_area S c"
    unfolding nt[symmetric] by (intro exI[of _ ?S'] conjI)
next
  assume h: "distinct (OrderedCellsfine M)
          \<and> sorted (map (\<lambda>c. Dem (FineMap c)) (OrderedCellsfine M))
          \<and> (\<forall>t. valid_cell_fine M (fst t) (snd t) \<and> Mask (FineMap t) \<longrightarrow> t \<in> set (OrderedCellsfine M))"
  then have h1: "distinct (OrderedCellsfine M)"
    and h2: "sorted (map (\<lambda>c. Dem (FineMap c)) (OrderedCellsfine M))"
    and h3: "\<forall>t. valid_cell_fine M (fst t) (snd t) \<and> Mask (FineMap t) \<longrightarrow> t \<in> set (OrderedCellsfine M)"
    by blast+
  from conservation_sweep[OF assms h1 h2 h3]
  show "\<exists>S. accumulate K M FineMap = Inr S
                 \<and> (\<Sum>c \<leftarrow> filter (\<lambda>c. lower_nbrs K M FineMap c = []) (OrderedCellsfine M). a_area S c)
                     = real (length (OrderedCellsfine M)) * real_of_int (dx M * dy M)"
    by (simp add: accumulate_eq[OF assms(1)])
qed

text \<open>The row of three cells at elevations 30, 20, 10, listed by ascending elevation: the
  highest cell at the start of the sweep passes on its 100, and the lowest cell, the only
  one without a lower neighbor, ends with 300.\<close>

theorem C4_area_conservation_witness:
  "NDIRSfine K0 = 8 \<and> 1 \<le> DMASS (stairs3_map [(2, 0), (1, 0), (0, 0)])
   \<and> tanbeta (init_state (stairs3_map [(2, 0), (1, 0), (0, 0)])) (0, 0) = 0
   \<and> lower_nbrs K0 (stairs3_map [(2, 0), (1, 0), (0, 0)]) stairs3_fine (0, 0) \<noteq> []
   \<and> distinct (OrderedCellsfine (stairs3_map [(2, 0), (1, 0), (0, 0)]))
   \<and> sorted (map (\<lambda>c. Dem (stairs3_fine c)) (OrderedCellsfine (stairs3_map [(2, 0), (1, 0), (0, 0)])))
   \<and> {t. valid_cell_fine (stairs3_map [(2, 0), (1, 0), (0, 0)]) (fst t) (snd t) \<and> Mask (stairs3_fine t)}
       \<subseteq> set (OrderedCellsfine (stairs3_map [(2, 0), (1, 0), (0, 0)]))
   \<and> (\<exists>S'. sweep_cell K0 (stairs3_map [(2, 0), (1, 0), (0, 0)]) stairs3_fine (0, 0)
               (init_state (stairs3_map [(2, 0), (1, 0), (0, 0)])) = Inr S'
          \<and> (\<Sum>n \<leftarrow> [0 ..< 8]. a_area S' (the (route_target n (0, 0)))
                - a_area (init_state (stairs3_map [(2, 0), (1, 0), (0, 0)])) (the (route_target n (0, 0))))
              = a_area (init_state (stairs3_map [(2, 0), (1, 0), (0, 0)])) (0, 0))
   \<and> (\<exists>S. accumulate K0 (stairs3_map [(2, 0), (1, 0), (0, 0)]) stairs3_fine = Inr S
          \<and> (\<Sum>c \<leftarrow> filter (\<lambda>c. lower_nbrs K0 (stairs3_map [(2, 0), (1, 0), (0, 0)]) stairs3_fine c = [])
                        (OrderedCellsfine (stairs3_map [(2, 0), (1, 0), (0, 0)])). a_area S c)
              = 300)"
proof -
  let ?M = "stairs3_map [(2, 0), (1, 0), (0, 0)]"
  have o: "OrderedCellsfine ?M = [(2, 0), (1, 0), (0, 0)]" by (simp add: stairs3_map_def)
  have h2: "1 \<le> DMASS ?M" by (simp add: stairs3_map_def)
  have h3: "tanbeta (init_state ?M) (0, 0) = 0" by (simp add: init_tanbeta)
  have h4: "lower_nbrs K0 ?M stairs3_fine (0, 0) \<noteq> []" by (simp add: stairs3_lower)
  have h5: "distinct (OrderedCellsfine ?M)" by (simp add: o)
  have h6: "sorted (map (\<lambda>c. Dem (stairs3_fine c)) (OrderedCellsfine ?M))"
    by (simp add: o stairs3_fine_def)
  have h7: "\<forall>t. valid_cell_fine ?M (fst t) (snd t) \<and> Mask (stairs3_fine t) \<longrightarrow> t \<in> set (OrderedCellsfine ?M)"
  proof (intro allI impI)
    fix t :: cell
    assume "valid_cell_fine ?M (fst t) (snd t) \<and> Mask (stairs3_fine t)"
    then have "0 \<le> fst t" "fst t < 3" "snd t = 0"
      by (auto simp: valid_cell_fine_def stairs3_map_def)
    then have "fst t = 0 \<or> fst t = 1 \<or> fst t = 2" by arith
    with \<open>snd t = 0\<close> show "t \<in> set (OrderedCellsfine ?M)"
      unfolding o by (cases t) auto
  qed
  then have h7': "{t. valid_cell_fine ?M (fst t) (snd t) \<and> Mask (stairs3_fine t)} \<subseteq> set (OrderedCellsfine ?M)"
    by blast
  have len: "real (length (OrderedCellsfine ?M)) * real_of_int (dx ?M * dy ?M) = 300"
    by (simp add: o stairs3_dx)
  note inst = C4_area_conservation[OF K0_8 h2, where S="init_state ?M" and c="(0, 0)" and FineMap=stairs3_fine]
  from inst[THEN conjunct1, rule_format, OF conjI[OF h3 h4]]
  obtain S' where S': "sweep_cell K0 ?M stairs3_fine (0, 0) (init_state ?M) = Inr S'"
    "(\<Sum>n \<leftarrow> [0 ..< 8]. a_area S' (the (route_target n (0, 0)))
                - a_area (init_state ?M) (the (route_target n (0, 0))))
              = a_area (init_state ?M) (0, 0)"
    by (elim exE conjE)
  have loc: "\<exists>S'. sweep_cell K0 ?M stairs3_fine (0, 0) (init_state ?M) = Inr S'
          \<and> (\<Sum>n \<leftarrow> [0 ..< 8]. a_area S' (the (route_target n (0, 0)))
                - a_area (init_state ?M) (the (route_target n (0, 0))))
              = a_area (init_state ?M) (0, 0)"
    using S' by (intro exI[of _ S'] conjI)
  from inst[THEN conjunct2, rule_format, OF conjI[OF h5 conjI[OF h6 h7]]]
  obtain S where S: "accumulate K0 ?M stairs3_fine = Inr S"
    "(\<Sum>c \<leftarrow> filter (\<lambda>c. lower_nbrs K0 ?M stairs3_fine c = []) (OrderedCellsfine ?M). a_area S c)
       = real (length (OrderedCellsfine ?M)) * real_of_int (dx ?M * dy ?M)"
    by (elim exE conjE)
  have glo: "\<exists>S. accumulate K0 ?M stairs3_fine = Inr S
          \<and> (\<Sum>c \<leftarrow> filter (\<lambda>c. lower_nbrs K0 ?M stairs3_fine c = []) (OrderedCellsfine ?M). a_area S c)
              = 300"
    using S unfolding len by (intro exI[of _ S] conjI)
  from K0_8 h2 h3 h4 h5 h6 h7' loc glo show ?thesis by (intro conjI)
qed

subsection \<open>Claim C7\<close>

text \<open>
  Claim C7, as stated, fails: the finalisation pass has no guard. With \<^verbatim>\<open>tanbeta\<close> = 0 at
  the ordered cell (0, 0) the rest of the function returns normally and has written the
  logarithm of the quotient into \<^verbatim>\<open>TopoIndex\<close> of that cell.
\<close>

theorem C7_no_guard_counterexample:
  "(0, 0) \<in> set (OrderedCellsfine (row2_map [(0, 0)]))
   \<and> tanbeta zero_slope_grids (0, 0) = 0
   \<and> \<not> isl (finish (row2_map [(0, 0)]) zero_slope_grids row2_fine)
   \<and> TopoIndex (projr (finish (row2_map [(0, 0)]) zero_slope_grids row2_fine) (0, 0))
       = ln (a_area zero_slope_grids (0, 0) / tanbeta zero_slope_grids (0, 0))"
  by (simp add: finish_eq) (simp add: row2_map_def zero_slope_grids_def)

text \<open>
  Claim C7, amended. The finalisation pass writes \<open>ln (a / tanbeta)\<close> into \<^verbatim>\<open>TopoIndex\<close>
  of every cell of \<^verbatim>\<open>OrderedCellsfine\<close>, whatever the value of \<^verbatim>\<open>tanbeta\<close>, leaves every
  other record as it was and raises no error: the function fails exactly when an
  allocation fails or the sweep fails.
\<close>

theorem C7_finalisation_unguarded:
  "finish M S FineMap =
     Inr (\<lambda>c. if c \<in> set (OrderedCellsfine M)
               then (FineMap c)\<lparr>TopoIndex := ln (a_area S c / tanbeta S c)\<rparr> else FineMap c)
   \<and> (isl (CalcTopoIndex K calloc_ok M FineMap) \<longleftrightarrow> \<not> calloc_ok \<or> isl (accumulate K M FineMap))"
  by (simp add: finish_eq CalcTopoIndex_def finish_def split: sum.splits)

text \<open>The finalisation pass at the state with \<^verbatim>\<open>tanbeta\<close> = 0.\<close>

theorem C7_finalisation_unguarded_witness:
  "\<not> isl (finish (row2_map [(0, 0)]) zero_slope_grids row2_fine)
   \<and> isl (CalcTopoIndex K0 False (row2_map [(0, 0)]) row2_fine)"
  using C7_finalisation_unguarded[where M="row2_map [(0, 0)]" and S=zero_slope_grids
      and FineMap=row2_fine and K=K0 and calloc_ok=False]
  by simp

subsection \<open>Claim C8\<close>

text \<open>
  Claim C8, as stated, fails. With four neighbors and an empty order the function returns
  normally; with four neighbors and one ordered cell the error is raised by the sweep,
  after the initialisation loop has changed the area grid from 0 to 100 at that cell.
\<close>

theorem C8_late_detection_counterexample:
  "NDIRSfine K4 \<noteq> 8
   \<and> CalcTopoIndex K4 True (row2_map []) row2_fine = Inr row2_fine
   \<and> a_area calloc_grids (0, 0) = 0
   \<and> a_area (init_loop (row2_map [(0, 0)]) (NumCellsfine (row2_map [(0, 0)])) calloc_grids) (0, 0) = 100
   \<and> sweep_loop K4 (row2_map [(0, 0)]) row2_fine (NumCellsfine (row2_map [(0, 0)]))
        (init_loop (row2_map [(0, 0)]) (NumCellsfine (row2_map [(0, 0)])) calloc_grids)
       = Inl (ReportError ''CalcTopoIndex'' 1)"
proof -
  have k: "NDIRSfine K4 \<noteq> 8" by (simp add: K4_def)
  have e: "CalcTopoIndex K4 True (row2_map []) row2_fine = Inr row2_fine"
    by (simp add: CalcTopoIndex_def accumulate_def NumCellsfine_def finish_def row2_map_def)
  have z: "a_area calloc_grids (0, 0) = 0" by (simp add: calloc_grids_def)
  have n: "NumCellsfine (row2_map [(0, 0)]) = Suc 0" by (simp add: NumCellsfine_def row2_map_def)
  have i: "a_area (init_loop (row2_map [(0, 0)]) (NumCellsfine (row2_map [(0, 0)])) calloc_grids) (0, 0) = 100"
    unfolding n by (simp add: row2_dx) (simp add: row2_map_def)
  have s: "sweep_loop K4 (row2_map [(0, 0)]) row2_fine (NumCellsfine (row2_map [(0, 0)]))
        (init_loop (row2_map [(0, 0)]) (NumCellsfine (row2_map [(0, 0)])) calloc_grids)
       = Inl (ReportError ''CalcTopoIndex'' 1)"
    unfolding n by (simp add: sweep_cell_not8[OF k])
  from k e z i s show ?thesis by blast
qed

text \<open>
  Claim C8, amended. When the neighbor count is not 8 and \<^verbatim>\<open>OrderedCellsfine\<close> is not
  empty, the function fails with the reported error; the error is raised in the sweep, at
  its first cell, the last element of the array, after the initialisation loop has set
  the area of every ordered cell to \<^verbatim>\<open>dx * dy\<close>, while \<^verbatim>\<open>tanbeta\<close> and \<^verbatim>\<open>contour_length\<close>
  are still zero everywhere. With an empty order and successful allocations the function
  returns normally and leaves \<^verbatim>\<open>FineMap\<close> as it was.
\<close>

theorem C8_unsupported_neighbor_count:
  assumes "NDIRSfine K \<noteq> 8"
  shows "(OrderedCellsfine M \<noteq> [] \<longrightarrow>
            CalcTopoIndex K calloc_ok M FineMap = Inl (ReportError ''CalcTopoIndex'' 1)
          \<and> accumulate K M FineMap = Inl (ReportError ''CalcTopoIndex'' 1)
          \<and> sweep_cell K M FineMap (last (OrderedCellsfine M))
               (init_loop M (NumCellsfine M) calloc_grids) = Inl (ReportError ''CalcTopoIndex'' 1)
          \<and> (\<forall>c \<in> set (OrderedCellsfine M).
                a_area (init_loop M (NumCellsfine M) calloc_grids) c = real_of_int (dx M * dy M))
          \<and> tanbeta (init_loop M (NumCellsfine M) calloc_grids) = (\<lambda>c. 0)
          \<and> contour_length (init_loop M (NumCellsfine M) calloc_grids) = (\<lambda>c. 0))
       \<and> (OrderedCellsfine M = [] \<and> calloc_ok \<longrightarrow> CalcTopoIndex K calloc_ok M FineMap = Inr FineMap)"
proof -
  have acc: "accumulate K M FineMap = Inl (ReportError ''CalcTopoIndex'' 1)"
    if "OrderedCellsfine M \<noteq> []"
    using that by (simp add: accumulate_foldE foldE_not8[OF assms])
  have ini: "a_area (init_state M) c = real_of_int (dx M * dy M)"
    if "c \<in> set (OrderedCellsfine M)" for c
    using that by (simp add: init_state_eq cell_area_def)
  have emp: "CalcTopoIndex K calloc_ok M FineMap = Inr FineMap"
    if "OrderedCellsfine M = []" "calloc_ok"
    using that by (simp add: CalcTopoIndex_def accumulate_def NumCellsfine_def finish_def)
  show ?thesis
    using acc ini emp sweep_cell_not8[OF assms]
    by (auto simp: CalcTopoIndex_def init_state_def[symmetric] init_state_eq)
qed

text \<open>Four neighbors and one ordered cell.\<close>

theorem C8_unsupported_neighbor_count_witness:
  "NDIRSfine K4 \<noteq> 8 \<and> OrderedCellsfine (row2_map [(0, 0)]) \<noteq> []
   \<and> CalcTopoIndex K4 True (row2_map [(0, 0)]) row2_fine = Inl (ReportError ''CalcTopoIndex'' 1)
   \<and> OrderedCellsfine (row2_map []) = []
   \<and> CalcTopoIndex K4 True (row2_map []) row2_fine = Inr row2_fine"
proof -
  have h: "NDIRSfine K4 \<noteq> 8" by (simp add: K4_def)
  have n: "OrderedCellsfine (row2_map [(0, 0)]) \<noteq> []" by (simp add: row2_map_def)
  have e: "OrderedCellsfine (row2_map []) = []" by (simp add: row2_map_def)
  from C8_unsupported_neighbor_count[OF h, where M="row2_map [(0, 0)]" and calloc_ok=True and FineMap=row2_fine]
    C8_unsupported_neighbor_count[OF h, where M="row2_map []" and calloc_ok=True and FineMap=row2_fine]
    h n e
  show ?thesis by blast
qed

subsection \<open>Claim C9\<close>

text \<open>
  Claim C9. Let every cell of \<^verbatim>\<open>OrderedCellsfine\<close> lie on the grid and inside the basin
  mask, as the data model requires. Then a cell off the grid or outside the mask keeps
  its \<^verbatim>\<open>FineMap\<close> record through the whole computation, no step of the sweep changes its
  area, which is still the zero of the allocation when the sweep has ended, and as a
  neighbor its elevation is replaced by the elevation of the cell being processed, so
  that it is never strictly lower.
\<close>

theorem C9_outside_cells_never_written:
  assumes "\<forall>c \<in> set (OrderedCellsfine M). valid_cell_fine M (fst c) (snd c) \<and> Mask (FineMap c)"
    and "\<not> (valid_cell_fine M (fst t) (snd t) \<and> Mask (FineMap t))"
  shows "(\<forall>F'. CalcTopoIndex K ok M FineMap = Inr F' \<longrightarrow> F' t = FineMap t)
       \<and> (\<forall>c S S'. sweep_cell K M FineMap c S = Inr S' \<longrightarrow> a_area S' t = a_area S t)
       \<and> (\<forall>S. accumulate K M FineMap = Inr S \<longrightarrow> a_area S t = 0)
       \<and> (\<forall>c n. NDIRSfine K = 8 \<and> n < 8 \<and> route_target n c = Some t
             \<longrightarrow> nelev K M FineMap c n = Dem (FineMap c) \<and> n \<notin> set (lower_nbrs K M FineMap c))"
proof -
  from assms have notin: "t \<notin> set (OrderedCellsfine M)" by blast
  have low: "n \<notin> set (lower_nbrs K M FineMap c)" if "nelev K M FineMap c n = Dem (FineMap c)" for c n
    using that by (simp add: lower_nbrs_def)
  show ?thesis
    using CalcTopoIndex_frame[OF notin]
      sweep_cell_outside_area[where FineMap=FineMap and t=t, OF assms(2)]
      accumulate_outside_area[where FineMap=FineMap and t=t, OF assms(2) notin]
      outside_neighbor_flat[where FineMap=FineMap and t=t and M=M and K=K] assms(2) low
    by blast
qed

text \<open>The row of two cells where the right cell is on the grid, outside the mask and
  lower than the left one, the only cell of the order.\<close>

theorem C9_outside_cells_never_written_witness:
  "OrderedCellsfine (row2_map [(0, 0)]) = [(0, 0)]
   \<and> valid_cell_fine (row2_map [(0, 0)]) (fst (0, 0)) (snd (0, 0)) \<and> Mask (hole_fine (0, 0))
   \<and> valid_cell_fine (row2_map [(0, 0)]) (fst (1, 0)) (snd (1, 0))
   \<and> \<not> (valid_cell_fine (row2_map [(0, 0)]) (fst (1, 0)) (snd (1, 0)) \<and> Mask (hole_fine (1, 0)))
   \<and> (\<exists>F'. CalcTopoIndex K0 True (row2_map [(0, 0)]) hole_fine = Inr F' \<and> F' (1, 0) = hole_fine (1, 0))
   \<and> (\<exists>S. accumulate K0 (row2_map [(0, 0)]) hole_fine = Inr S \<and> a_area S (1, 0) = 0)"
proof -
  have h1: "\<forall>c \<in> set (OrderedCellsfine (row2_map [(0, 0)])).
       valid_cell_fine (row2_map [(0, 0)]) (fst c) (snd c) \<and> Mask (hole_fine c)"
    by (simp add: row2_map_def valid_cell_fine_def hole_fine_def)
  have h2: "\<not> (valid_cell_fine (row2_map [(0, 0)]) (fst (1, 0)) (snd (1, 0)) \<and> Mask (hole_fine (1, 0)))"
    by (simp add: hole_fine_def)
  have k: "NDIRSfine K0 = 8" by (simp add: K0_def)
  obtain F' where F': "CalcTopoIndex K0 True (row2_map [(0, 0)]) hole_fine = Inr F'"
    using CalcTopoIndex_eq[OF k] by blast
  obtain S where S: "accumulate K0 (row2_map [(0, 0)]) hole_fine = Inr S"
    using accumulate_eq[OF k] by blast
  have h3: "OrderedCellsfine (row2_map [(0, 0)]) = [(0, 0)]"
    "valid_cell_fine (row2_map [(0, 0)]) (fst (0, 0)) (snd (0, 0)) \<and> Mask (hole_fine (0, 0))"
    "valid_cell_fine (row2_map [(0, 0)]) (fst (1, 0)) (snd (1, 0))"
    by (simp_all add: row2_map_def valid_cell_fine_def hole_fine_def)
  from C9_outside_cells_never_written[where FineMap=hole_fine and t="(1, 0)" and K=K0 and ok=True, OF h1 h2]
    F' S h2 h3
  show ?thesis by blast
qed

subsection \<open>Claim C10\<close>

text \<open>
  Claim C10. A neighbor on the grid and inside the basin whose elevation equals the
  sentinel \<^verbatim>\<open>OUTSIDEBASIN\<close> is read as the sentinel, so the first loop replaces its
  elevation by the cell's own: it is not among the strictly lower neighbors, whatever
  the cell's elevation, and the step of the cell, like the step of any other cell,
  leaves its area as it was.
\<close>

theorem C10_sentinel_elevation_is_outside:
  assumes "NDIRSfine K = 8" and "n < 8" and "route_target n c = Some t"
    and "valid_cell_fine M (fst t) (snd t)" and "Mask (FineMap t)"
    and "Dem (FineMap t) = OUTSIDEBASIN K"
  shows "neighbor_elev (fst (slope_loop K M c (Dem (FineMap c)) (fill_neighbors K M FineMap c) S)) ! n
           = Dem (FineMap c)
       \<and> n \<notin> set (lower_nbrs K M FineMap c)
       \<and> (\<exists>S'. sweep_cell K M FineMap c S = Inr S' \<and> a_area S' t = a_area S t)
       \<and> (\<forall>c' S1 S2. sweep_cell K M FineMap c' S1 = Inr S2 \<longrightarrow> a_area S2 t = a_area S1 t)"
proof -
  have "neighbor_elev (fst (slope_loop K M c (Dem (FineMap c)) (fill_neighbors K M FineMap c) S)) ! n
           = nelev K M FineMap c n"
    using slope_loop_result[OF assms(1), where M=M and c=c and FineMap=FineMap and S=S] assms(2)
    by (simp split: prod.splits)
  moreover have "sweep_cell K M FineMap c S = Inr (cell_step K M FineMap c S)"
    by (rule sweep_cell_step[OF assms(1)])
  ultimately show ?thesis
    using sentinel_neighbor(2,3)[where FineMap=FineMap and t=t, OF assms]
      sweep_cell_sentinel_area[where FineMap=FineMap and t=t, OF assms(6)]
    by auto
qed

text \<open>A cell at elevation 10 whose right neighbor lies at the sentinel elevation 0,
  strictly below it.\<close>

theorem C10_sentinel_elevation_is_outside_witness:
  "NDIRSfine K0 = 8 \<and> (3::nat) < 8 \<and> route_target 3 (0, 0) = Some (1, 0)
   \<and> valid_cell_fine (row2_map [(1, 0), (0, 0)]) (fst (1, 0)) (snd (1, 0))
   \<and> Mask (sentinel_fine (1, 0)) \<and> Dem (sentinel_fine (1, 0)) = OUTSIDEBASIN K0
   \<and> Dem (sentinel_fine (1, 0)) < Dem (sentinel_fine (0, 0))
   \<and> 3 \<notin> set (lower_nbrs K0 (row2_map [(1, 0), (0, 0)]) sentinel_fine (0, 0))
   \<and> (\<exists>S'. sweep_cell K0 (row2_map [(1, 0), (0, 0)]) sentinel_fine (0, 0)
               (init_state (row2_map [(1, 0), (0, 0)])) = Inr S'
             \<and> a_area S' (1, 0) = a_area (init_state (row2_map [(1, 0), (0, 0)])) (1, 0))"
proof -
  have h1: "NDIRSfine K0 = 8" by (simp add: K0_def)
  have h2: "(3::nat) < 8" by simp
  have h3: "route_target 3 (0, 0) = Some (1, 0)" by (simp add: route_target_def)
  have h4: "valid_cell_fine (row2_map [(1, 0), (0, 0)]) (fst (1, 0)) (snd (1, 0))"
    by (simp add: valid_cell_fine_def row2_map_def)
  have h5: "Mask (sentinel_fine (1, 0))" by (simp add: sentinel_fine_def)
  have h6: "Dem (sentinel_fine (1, 0)) = OUTSIDEBASIN K0" by (simp add: sentinel_fine_def K0_def)
  have h7: "Dem (sentinel_fine (1, 0)) < Dem (sentinel_fine (0, 0))" by (simp add: sentinel_fine_def)
  from C10_sentinel_elevation_is_outside[where FineMap=sentinel_fine and t="(1, 0)"
      and S="init_state (row2_map [(1, 0), (0, 0)])", OF h1 h2 h3 h4 h5 h6] h1 h2 h3 h4 h5 h6 h7
  show ?thesis by blast
qed

end
